theory Spec2Isabelle
  imports Main "HOL-Library.AList" "HOL-Library.Multiset"
begin

section \<open>Data model of lidder.go\<close>

text \<open>
  Go's \<open>error\<close> values that the program can meet: \<open>io.EOF\<close> (the only one the code
  compares against), errors of the \<open>os\<close> package, syntax errors of \<open>regexp.Compile\<close>
  and errors of \<open>yaml.Unmarshal\<close>.
\<close>

datatype error =
    EOF
  | PathError string
  | SyntaxError string
  | YamlError string

text \<open>A call either returns an \<open>error\<close> to its caller or panics (here: a nil dereference).\<close>

datatype failure = Error error | Panic

text \<open>
  A Go \<open>map[string]bool\<close> is an association list with one entry per key. Reading
  \<open>m[k]\<close> yields the stored value, or \<open>false\<close> (the zero value) when the key is
  absent; \<open>m[k] = true\<close> overwrites or adds the entry; \<open>for k := range m\<close> visits the
  keys. Go leaves the iteration order unspecified, so statements about a \<open>range\<close> loop
  are made about the set of visited keys.
\<close>

type_synonym gomap = "(string \<times> bool) list"

definition make_map :: gomap where
  "make_map = []"

definition index :: "gomap \<Rightarrow> string \<Rightarrow> bool" where
  "index m k = (case map_of m k of None \<Rightarrow> False | Some b \<Rightarrow> b)"

definition assign_true :: "gomap \<Rightarrow> string \<Rightarrow> gomap" where
  "assign_true m k = AList.update k True m"

definition range_keys :: "gomap \<Rightarrow> string list" where
  "range_keys m = map fst m"

text \<open>
  The representation invariant of a map of this program: keys are unique (it is a map),
  and every stored value is \<open>true\<close> (the code never stores anything else).
\<close>

definition wf_map :: "gomap \<Rightarrow> bool" where
  "wf_map m = (distinct (map fst m) \<and> list_all snd m)"

text \<open>
  \<open>type rule struct\<close>. The type \<open>'re\<close> stands for \<open>*regexp.Regexp\<close>, a compiled
  pattern.
\<close>

record 're rule =
  Pattern :: string
  Expected :: "string list"
  pattern :: 're
  expectedFilenames :: gomap
  actualFilenames :: gomap

text \<open>
  \<open>type defs struct\<close>. The fields \<open>include\<close> and \<open>exclude\<close> of the source are written
  \<open>include'\<close> and \<open>exclude'\<close>.
\<close>

record 're defs =
  Include :: "string list"
  Exclude :: "string list"
  Rules :: "'re rule list"
  include' :: "'re list"
  exclude' :: "'re list"

text \<open>
  What \<open>yaml.Unmarshal\<close> fills in: the exported fields only. An element of \<open>Rules\<close>
  has type \<open>*rule\<close>, and a null entry of the document leaves it nil: \<open>None\<close>.
\<close>

record rule_yaml =
  yPattern :: string
  yExpected :: "string list"

record defs_yaml =
  yInclude :: "string list"
  yExclude :: "string list"
  yRules :: "rule_yaml option list"

text \<open>
  The library functions the program calls, as parameters of the model:
  \<open>regexp.Compile\<close>, \<open>(*Regexp).Match\<close>, \<open>yaml.Unmarshal\<close> and \<open>filepath.Join\<close>.
\<close>

record 're library =
  regexp_Compile :: "string \<Rightarrow> error + 're"
  regexp_Match :: "'re \<Rightarrow> string \<Rightarrow> bool"
  yaml_Unmarshal :: "string \<Rightarrow> error + defs_yaml"
  filepath_Join :: "string \<Rightarrow> string \<Rightarrow> string"

section \<open>Reconciliation: \<open>Mismatches\<close> and \<open>adjustExpectedFilenames\<close>\<close>

text \<open>The two loops of \<open>Mismatches\<close>: append every visited key that the other map lacks.\<close>

fun collect_absent :: "gomap \<Rightarrow> string list \<Rightarrow> string list \<Rightarrow> string list" where
  "collect_absent other acc [] = acc"
| "collect_absent other acc (k # ks) =
     (if \<not> index other k then collect_absent other (acc @ [k]) ks
      else collect_absent other acc ks)"

definition Mismatches :: "'re rule \<Rightarrow> string list \<times> string list" where
  "Mismatches r =
     (let shouldNotBeThere = collect_absent (expectedFilenames r) [] (range_keys (actualFilenames r));
          shouldBeThere = collect_absent (actualFilenames r) [] (range_keys (expectedFilenames r))
      in (shouldNotBeThere, shouldBeThere))"

text \<open>The sets of paths the two maps of a rule stand for.\<close>

definition expectedFiles :: "'re rule \<Rightarrow> string set" where
  "expectedFiles r = {p. index (expectedFilenames r) p}"

definition actualFiles :: "'re rule \<Rightarrow> string set" where
  "actualFiles r = {p. index (actualFilenames r) p}"

definition wf_rule :: "'re rule \<Rightarrow> bool" where
  "wf_rule r = (wf_map (expectedFilenames r) \<and> wf_map (actualFilenames r))"

text \<open>The test of \<open>main\<close> that marks a rule as failed.\<close>

definition rule_failed :: "'re rule \<Rightarrow> bool" where
  "rule_failed r =
     (case Mismatches r of (shouldNotBeThere, shouldBeThere) \<Rightarrow>
        length shouldNotBeThere \<noteq> 0 \<or> length shouldBeThere \<noteq> 0)"

definition adjust_rule :: "string \<Rightarrow> 're rule \<Rightarrow> 're rule" where
  "adjust_rule filename r =
     (let newExpectedFilenames = make_map;
          newExpectedFilenames =
            (if index (expectedFilenames r) filename
             then assign_true newExpectedFilenames filename
             else newExpectedFilenames)
      in r\<lparr>expectedFilenames := newExpectedFilenames\<rparr>)"

definition adjustExpectedFilenames :: "'re defs \<Rightarrow> string \<Rightarrow> 're defs" where
  "adjustExpectedFilenames d filename = d\<lparr>Rules := map (adjust_rule filename) (Rules d)\<rparr>"

section \<open>Scanning: \<open>matchAgainstLine\<close> and \<open>shouldCheck\<close>\<close>

fun match_rules :: "'re library \<Rightarrow> string \<Rightarrow> string \<Rightarrow> 're rule list \<Rightarrow> 're rule list" where
  "match_rules L filename line [] = []"
| "match_rules L filename line (r # rs) =
     (if regexp_Match L (pattern r) line
      then r\<lparr>actualFilenames := assign_true (actualFilenames r) filename\<rparr>
      else r) # match_rules L filename line rs"

definition matchAgainstLine :: "'re library \<Rightarrow> 're defs \<Rightarrow> string \<Rightarrow> string \<Rightarrow> 're defs" where
  "matchAgainstLine L d filename line = d\<lparr>Rules := match_rules L filename line (Rules d)\<rparr>"

text \<open>A loop that returns at the first pattern matching the path.\<close>

fun any_match :: "'re library \<Rightarrow> 're list \<Rightarrow> string \<Rightarrow> bool" where
  "any_match L [] filename = False"
| "any_match L (p # ps) filename =
     (if regexp_Match L p filename then True else any_match L ps filename)"

definition shouldCheck :: "'re library \<Rightarrow> 're defs \<Rightarrow> string \<Rightarrow> bool" where
  "shouldCheck L d filename =
     (if any_match L (exclude' d) filename then False
      else if any_match L (include' d) filename then True
      else False)"

section \<open>Reading a file: \<open>matchAgainstFile\<close>\<close>

text \<open>
  An opened file: the bytes the operating system delivers, and the error that the read
  after the last byte returns, which is \<open>io.EOF\<close> unless reading fails.
\<close>

record os_file =
  bytes :: string
  fault :: error

text \<open>
  \<open>bufio.Reader.ReadString(delim)\<close> reads up to and including the first \<open>delim\<close> and
  returns that with a nil error. When the input ends first, it returns the data read so
  far together with the error.
\<close>

fun read_until :: "char \<Rightarrow> string \<Rightarrow> (string \<times> string) option" where
  "read_until delim [] = None"
| "read_until delim (c # cs) =
     (if c = delim then Some ([c], cs)
      else (case read_until delim cs of
              None \<Rightarrow> None
            | Some (line, rest) \<Rightarrow> Some (c # line, rest)))"

definition ReadString :: "os_file \<Rightarrow> char \<Rightarrow> (string \<times> error option) \<times> os_file" where
  "ReadString reader delim =
     (case read_until delim (bytes reader) of
        Some (line, rest) \<Rightarrow> ((line, None), reader\<lparr>bytes := rest\<rparr>)
      | None \<Rightarrow> ((bytes reader, Some (fault reader)), reader\<lparr>bytes := []\<rparr>))"

lemma read_until_shorter:
  "read_until delim cs = Some (line, rest) \<Longrightarrow> length rest < length cs"
  by (induction cs arbitrary: line) (auto split: if_splits option.splits)

lemma ReadString_shorter:
  "ReadString reader delim = ((line, None), reader') \<Longrightarrow>
     length (bytes reader') < length (bytes reader)"
  by (auto simp: ReadString_def split: option.splits dest: read_until_shorter)

text \<open>The \<open>for\<close> loop of \<open>matchAgainstFile\<close>; the result is the returned error and the state.\<close>

function read_loop ::
  "'re library \<Rightarrow> 're defs \<Rightarrow> string \<Rightarrow> os_file \<Rightarrow> error option \<times> 're defs" where
  "read_loop L d filename reader =
     (case ReadString reader (CHR 0x0A) of
        ((line, Some err), reader') \<Rightarrow> (if err = EOF then (None, d) else (Some err, d))
      | ((line, None), reader') \<Rightarrow>
          read_loop L (matchAgainstLine L d filename line) filename reader')"
  by pat_completeness auto
termination
  by (relation "measure (\<lambda>(L, d, filename, reader). length (bytes reader))")
     (auto dest: ReadString_shorter [OF sym])

text \<open>The argument \<open>opened\<close> is what \<open>os.Open(filename)\<close> returns.\<close>

definition matchAgainstFile ::
  "'re library \<Rightarrow> 're defs \<Rightarrow> string \<Rightarrow> error + os_file \<Rightarrow> error option \<times> 're defs" where
  "matchAgainstFile L d filename opened =
     (case opened of
        Inl err \<Rightarrow> (Some err, d)
      | Inr reader \<Rightarrow> read_loop L d filename reader)"

section \<open>Walking the tree: \<open>exploreDir\<close>\<close>

text \<open>
  A directory entry by its mode: a directory with what \<open>ioutil.ReadDir\<close> returns for it
  (an error, or its named entries), a regular file with what \<open>os.Open\<close> returns for it,
  or anything else (a symbolic link, a device, a socket).
\<close>

datatype node =
    Dir "error + (string \<times> node) list"
  | Regular "error + os_file"
  | Other

function exploreDir ::
  "'re library \<Rightarrow> 're defs \<Rightarrow> string \<Rightarrow> error + (string \<times> node) list \<Rightarrow> error option \<times> 're defs"
and explore_files ::
  "'re library \<Rightarrow> 're defs \<Rightarrow> string \<Rightarrow> (string \<times> node) list \<Rightarrow> error option \<times> 're defs"
where
  "exploreDir L d dirname (Inl err) = (Some err, d)"
| "exploreDir L d dirname (Inr files) = explore_files L d dirname files"
| "explore_files L d dirname [] = (None, d)"
| "explore_files L d dirname ((name, fi) # files) =
     (let filename = filepath_Join L dirname name in
      case fi of
        Dir listing \<Rightarrow>
          (case exploreDir L d filename listing of
             (Some err, d') \<Rightarrow> (Some err, d')
           | (None, d') \<Rightarrow> explore_files L d' dirname files)
      | Regular opened \<Rightarrow>
          (if shouldCheck L d filename
           then (case matchAgainstFile L d filename opened of
                   (Some err, d') \<Rightarrow> (Some err, d')
                 | (None, d') \<Rightarrow> explore_files L d' dirname files)
           else explore_files L d dirname files)
      | Other \<Rightarrow> explore_files L d dirname files)"
  by pat_completeness auto
termination
  by (relation "measure (\<lambda>x. case x of
        Inl (L, d, dirname, listing) \<Rightarrow>
          Suc (size_sum (\<lambda>_. 0) (size_list (size_prod (\<lambda>_. 0) size)) listing)
      | Inr (L, d, dirname, files) \<Rightarrow> size_list (size_prod (\<lambda>_. 0) size) files)")
     auto

section \<open>Building the definitions: \<open>parse\<close>\<close>

text \<open>The loops compiling \<open>defs.Include\<close> and \<open>defs.Exclude\<close>, in order.\<close>

fun compile_all :: "'re library \<Rightarrow> string list \<Rightarrow> error + 're list" where
  "compile_all L [] = Inr []"
| "compile_all L (expr # exprs) =
     (case regexp_Compile L expr of
        Inl err \<Rightarrow> Inl err
      | Inr p \<Rightarrow>
          (case compile_all L exprs of
             Inl err \<Rightarrow> Inl err
           | Inr ps \<Rightarrow> Inr (p # ps)))"

text \<open>
  The loop compiling the rules' patterns. Reading \<open>rule.Pattern\<close> through a nil pointer
  panics. The maps of a rule are still nil after this loop.
\<close>

fun compile_rules :: "'re library \<Rightarrow> rule_yaml option list \<Rightarrow> failure + 're rule list" where
  "compile_rules L [] = Inr []"
| "compile_rules L (None # ys) = Inl Panic"
| "compile_rules L (Some y # ys) =
     (case regexp_Compile L (yPattern y) of
        Inl err \<Rightarrow> Inl (Error err)
      | Inr p \<Rightarrow>
          (case compile_rules L ys of
             Inl f \<Rightarrow> Inl f
           | Inr rs \<Rightarrow>
               Inr (\<lparr>Pattern = yPattern y, Expected = yExpected y, pattern = p,
                     expectedFilenames = [], actualFilenames = []\<rparr> # rs)))"

text \<open>The loop body initialising the maps of one rule.\<close>

definition init_maps :: "'re rule \<Rightarrow> 're rule" where
  "init_maps r =
     r\<lparr>expectedFilenames := foldl assign_true make_map (Expected r),
       actualFilenames := make_map\<rparr>"

definition parse :: "'re library \<Rightarrow> string \<Rightarrow> failure + 're defs" where
  "parse L input =
     (case yaml_Unmarshal L input of
        Inl err \<Rightarrow> Inl (Error err)
      | Inr y \<Rightarrow>
     (case compile_all L (yInclude y) of
        Inl err \<Rightarrow> Inl (Error err)
      | Inr inc \<Rightarrow>
     (case compile_all L (yExclude y) of
        Inl err \<Rightarrow> Inl (Error err)
      | Inr exc \<Rightarrow>
     (case compile_rules L (yRules y) of
        Inl f \<Rightarrow> Inl f
      | Inr rs \<Rightarrow>
          Inr \<lparr>Include = yInclude y, Exclude = yExclude y, Rules = map init_maps rs,
               include' = inc, exclude' = exc\<rparr>))))"

section \<open>The program: \<open>main\<close>\<close>

text \<open>
  The file system as \<open>main\<close> sees it: \<open>ioutil.ReadFile\<close> and \<open>os.Open\<close> by path, and
  what \<open>ioutil.ReadDir(".")\<close> returns, with the tree below it.
\<close>

record world =
  ioutil_ReadFile :: "string \<Rightarrow> error + string"
  os_Open :: "string \<Rightarrow> error + os_file"
  cwd :: "error + (string \<times> node) list"

text \<open>
  What the program prints on standard output, one constructor for each print statement:
  the usage text; in single-file mode, that the pattern of a rule was found, or was
  expected but not found; otherwise the pattern of a failed rule, the heading of the
  paths that should not be there, the heading of the paths that should be there, and
  one listed path; the closing line of a failed run and the closing line of a passed run.
\<close>

datatype message =
    UsageText
  | PatternFound string
  | PatternNotFound string
  | FailedRule string
  | HeadingUnexpected
  | HeadingMissing
  | ListedPath string
  | TestFailed
  | TestPassed

text \<open>
  How the process ends: with an exit status, the messages printed on standard output and
  the error printed on standard error; or by a panic.
\<close>

datatype outcome =
    Exit nat "message list" "error option"
  | Crash

definition report_rule :: "bool \<Rightarrow> 're rule \<Rightarrow> message list" where
  "report_rule singleFileMode r =
     (case Mismatches r of (shouldNotBeThere, shouldBeThere) \<Rightarrow>
        if length shouldNotBeThere \<noteq> 0 \<or> length shouldBeThere \<noteq> 0 then
          (if singleFileMode then
             (if length shouldNotBeThere \<noteq> 0 then [PatternFound (Pattern r)]
              else if length shouldBeThere \<noteq> 0 then [PatternNotFound (Pattern r)]
              else [])
           else
             [FailedRule (Pattern r)]
             @ (if length shouldNotBeThere \<noteq> 0
                then HeadingUnexpected # map ListedPath shouldNotBeThere
                else [])
             @ (if length shouldBeThere \<noteq> 0
                then HeadingMissing # map ListedPath shouldBeThere
                else []))
        else [])"

text \<open>The scanning step of \<open>main\<close>: the mode chosen, the error and the state.\<close>

definition scan ::
  "'re library \<Rightarrow> world \<Rightarrow> string list \<Rightarrow> 're defs \<Rightarrow> bool \<times> error option \<times> 're defs" where
  "scan L w args results =
     (if length args = 3 \<and> shouldCheck L results (args ! 2)
      then
        (let results' = adjustExpectedFilenames results (args ! 2)
         in (True, matchAgainstFile L results' (args ! 2) (os_Open w (args ! 2))))
      else (False, exploreDir L results ''.'' (cwd w)))"

definition main :: "'re library \<Rightarrow> world \<Rightarrow> string list \<Rightarrow> outcome" where
  "main L w args =
     (if length args \<noteq> 2 \<and> length args \<noteq> 3 then Exit 1 [UsageText] None
      else
        (case ioutil_ReadFile w (args ! 1) of
           Inl err \<Rightarrow> Exit 1 [] (Some err)
         | Inr config \<Rightarrow>
        (case parse L config of
           Inl Panic \<Rightarrow> Crash
         | Inl (Error err) \<Rightarrow> Exit 1 [] (Some err)
         | Inr results \<Rightarrow>
        (case scan L w args results of
           (singleFileMode, Some err, results') \<Rightarrow> Exit 1 [] (Some err)
         | (singleFileMode, None, results') \<Rightarrow>
             (let testFailed = list_ex rule_failed (Rules results');
                  printed = concat (map (report_rule singleFileMode) (Rules results'))
              in if testFailed
                 then Exit 2 (printed @ [TestFailed]) None
                 else Exit 0 (printed @ [TestPassed]) None)))))"

section \<open>What a scan feeds to \<open>matchAgainstLine\<close>\<close>

text \<open>The complete lines of a byte sequence, each with its newline.\<close>

function complete_lines :: "string \<Rightarrow> string list" where
  "complete_lines bs =
     (case read_until (CHR 0x0A) bs of
        None \<Rightarrow> []
      | Some (line, rest) \<Rightarrow> line # complete_lines rest)"
  by pat_completeness auto
termination
  by (relation "measure length") (auto dest: read_until_shorter)

text \<open>
  A tree is readable when no directory listing fails and every regular file that passes
  the path filter \<open>chk\<close> opens and reads to the end of its input. The feed of a tree
  is the sequence of (path, line) pairs of those files, in the order of the walk.
\<close>

fun readable :: "(string \<Rightarrow> string \<Rightarrow> string) \<Rightarrow> (string \<Rightarrow> bool) \<Rightarrow> string \<Rightarrow> node \<Rightarrow> bool" where
  "readable J chk path (Dir (Inl err)) = False"
| "readable J chk path (Dir (Inr files)) =
     list_all (\<lambda>(name, fi). readable J chk (J path name) fi) files"
| "readable J chk path (Regular opened) =
     (if chk path
      then (case opened of Inl err \<Rightarrow> False | Inr reader \<Rightarrow> fault reader = EOF)
      else True)"
| "readable J chk path Other = True"

fun feed :: "(string \<Rightarrow> string \<Rightarrow> string) \<Rightarrow> (string \<Rightarrow> bool) \<Rightarrow> string \<Rightarrow> node \<Rightarrow> (string \<times> string) list" where
  "feed J chk path (Dir (Inl err)) = []"
| "feed J chk path (Dir (Inr files)) =
     concat (map (\<lambda>(name, fi). feed J chk (J path name) fi) files)"
| "feed J chk path (Regular opened) =
     (if chk path
      then (case opened of
              Inl err \<Rightarrow> []
            | Inr reader \<Rightarrow> map (Pair path) (complete_lines (bytes reader)))
      else [])"
| "feed J chk path Other = []"

text \<open>
  The walk by itself, for a path filter \<open>chk\<close>: the first error met in the order of the
  walk, if any, and the (path, line) pairs fed to \<open>matchAgainstLine\<close> before it. A file
  that fails while it is read has fed its complete lines; nothing after the first error
  is fed.
\<close>

function walk ::
  "(string \<Rightarrow> string \<Rightarrow> string) \<Rightarrow> (string \<Rightarrow> bool) \<Rightarrow> string \<Rightarrow> node
     \<Rightarrow> error option \<times> (string \<times> string) list"
and walk_files ::
  "(string \<Rightarrow> string \<Rightarrow> string) \<Rightarrow> (string \<Rightarrow> bool) \<Rightarrow> string \<Rightarrow> (string \<times> node) list
     \<Rightarrow> error option \<times> (string \<times> string) list"
where
  "walk J chk path (Dir (Inl err)) = (Some err, [])"
| "walk J chk path (Dir (Inr files)) = walk_files J chk path files"
| "walk J chk path (Regular opened) =
     (if chk path
      then (case opened of
              Inl err \<Rightarrow> (Some err, [])
            | Inr reader \<Rightarrow>
                (if fault reader = EOF then None else Some (fault reader),
                 map (Pair path) (complete_lines (bytes reader))))
      else (None, []))"
| "walk J chk path Other = (None, [])"
| "walk_files J chk dirname [] = (None, [])"
| "walk_files J chk dirname ((name, fi) # files) =
     (case walk J chk (J dirname name) fi of
        (Some err, fed) \<Rightarrow> (Some err, fed)
      | (None, fed) \<Rightarrow>
          (case walk_files J chk dirname files of
             (err, fed') \<Rightarrow> (err, fed @ fed')))"
  by pat_completeness auto
termination
  by (relation "measure (\<lambda>x. case x of
        Inl (J, chk, path, fi) \<Rightarrow> size fi
      | Inr (J, chk, dirname, files) \<Rightarrow> size_list (size_prod (\<lambda>_. 0) size) files)")
     auto

text \<open>Two trees that differ only in the order of the entries of their directories.\<close>

inductive shuffled :: "node \<Rightarrow> node \<Rightarrow> bool" where
  shuffled_Regular: "shuffled (Regular opened) (Regular opened)"
| shuffled_Other: "shuffled Other Other"
| shuffled_Unreadable: "shuffled (Dir (Inl err)) (Dir (Inl err))"
| shuffled_Dir:
    "list_all2 (\<lambda>a b. fst a = fst b \<and> shuffled (snd a) (snd b)) files files' \<Longrightarrow>
     mset files' = mset files'' \<Longrightarrow>
     shuffled (Dir (Inr files)) (Dir (Inr files''))"

code_pred shuffled .

section \<open>A small library instance and sample data\<close>

text \<open>
  An instance of the library for concrete runs: a pattern of letters, digits and dots
  only is taken as a literal and matches every text that contains it; any other
  pattern is rejected with a syntax error that quotes it. The deserialiser delivers a
  given structured value \<open>y\<close>, and joining a name to \<open>.\<close> yields the name.
\<close>

fun occurs_in :: "string \<Rightarrow> string \<Rightarrow> bool" where
  "occurs_in p [] = (p = [])"
| "occurs_in p (c # cs) = (take (length p) (c # cs) = p \<or> occurs_in p cs)"

definition literal_Compile :: "string \<Rightarrow> error + string" where
  "literal_Compile expr =
     (if list_all (\<lambda>c. c \<in> set ''abcdefghijklmnopqrstuvwxyzABCDEFGHIJKLMNOPQRSTUVWXYZ0123456789'') expr
      then Inr expr
      else Inl (SyntaxError expr))"

definition path_Join :: "string \<Rightarrow> string \<Rightarrow> string" where
  "path_Join dir name = (if dir = ''.'' then name else dir @ ''/'' @ name)"

definition literal :: "defs_yaml \<Rightarrow> string library" where
  "literal y =
     \<lparr>regexp_Compile = literal_Compile, regexp_Match = occurs_in,
      yaml_Unmarshal = (\<lambda>input. Inr y), filepath_Join = path_Join\<rparr>"

definition sample_yaml :: defs_yaml where
  "sample_yaml =
     \<lparr>yInclude = [''go''], yExclude = [''vendor''],
      yRules = [Some \<lparr>yPattern = ''TODO'', yExpected = [''legacy.go'']\<rparr>]\<rparr>"

definition sample_rule :: "string rule" where
  "sample_rule =
     \<lparr>Pattern = ''TODO'', Expected = [''legacy.go''], pattern = ''TODO'',
      expectedFilenames = [(''legacy.go'', True)], actualFilenames = []\<rparr>"

definition sample_defs :: "string defs" where
  "sample_defs =
     \<lparr>Include = [''go''], Exclude = [''vendor''], Rules = [sample_rule],
      include' = [''go''], exclude' = [''vendor'']\<rparr>"

text \<open>The sample rule after a scan that found the pattern in two files.\<close>

definition scanned_rule :: "string rule" where
  "scanned_rule = sample_rule\<lparr>actualFilenames := [(''new.go'', True), (''legacy.go'', True)]\<rparr>"

definition narrowing_defs :: "string defs" where
  "narrowing_defs =
     sample_defs\<lparr>Rules :=
       [sample_rule\<lparr>Expected := [''a.go'', ''b.go''],
                     expectedFilenames := [(''a.go'', True), (''b.go'', True)]\<rparr>]\<rparr>"

definition two_rule_defs :: "string defs" where
  "two_rule_defs =
     sample_defs\<lparr>Rules :=
       [sample_rule,
        \<lparr>Pattern = ''FIXME'', Expected = [], pattern = ''FIXME'',
         expectedFilenames = [], actualFilenames = []\<rparr>]\<rparr>"

text \<open>
  The shape of a rule in single-file mode: each of its maps is empty or holds the target
  path alone.
\<close>

definition narrowed :: "string \<Rightarrow> 're rule \<Rightarrow> bool" where
  "narrowed target r =
     ((expectedFilenames r = [] \<or> expectedFilenames r = [(target, True)])
      \<and> (actualFilenames r = [] \<or> actualFilenames r = [(target, True)]))"

text \<open>Feeding a sequence of (path, line) pairs to \<open>matchAgainstLine\<close>, in order.\<close>

definition feed_into :: "'re library \<Rightarrow> 're defs \<Rightarrow> (string \<times> string) list \<Rightarrow> 're defs" where
  "feed_into L d pairs = foldl (\<lambda>d' (path, line). matchAgainstLine L d' path line) d pairs"

text \<open>
  The error of the first expression that \<open>regexp.Compile\<close> rejects, and the patterns of
  the rules that stand before the first nil entry.
\<close>

fun first_failure :: "'re library \<Rightarrow> string list \<Rightarrow> error option" where
  "first_failure L [] = None"
| "first_failure L (expr # exprs) =
     (case regexp_Compile L expr of
        Inl err \<Rightarrow> Some err
      | Inr p \<Rightarrow> first_failure L exprs)"

fun leading_patterns :: "rule_yaml option list \<Rightarrow> string list" where
  "leading_patterns [] = []"
| "leading_patterns (None # ys) = []"
| "leading_patterns (Some y # ys) = yPattern y # leading_patterns ys"

definition all_patterns :: "defs_yaml \<Rightarrow> string list" where
  "all_patterns y =
     yInclude y @ yExclude y @ concat (map (case_option [] (\<lambda>r. [yPattern r])) (yRules y))"

text \<open>Two configurations with the same malformed pattern at different places.\<close>

definition bad_include_yaml :: defs_yaml where
  "bad_include_yaml = \<lparr>yInclude = [''(''], yExclude = [], yRules = []\<rparr>"

definition bad_rule_yaml :: defs_yaml where
  "bad_rule_yaml =
     \<lparr>yInclude = [''go''], yExclude = [''vendor''],
      yRules = [Some \<lparr>yPattern = ''TODO'', yExpected = [''legacy.go'']\<rparr>,
                Some \<lparr>yPattern = ''('', yExpected = []\<rparr>]\<rparr>"

text \<open>A file whose last line has no newline, the same file with it, and a file that fails.\<close>

definition unterminated_file :: os_file where
  "unterminated_file = \<lparr>bytes = ''package x'' @ [CHR 0x0A] @ ''// TODO'', fault = EOF\<rparr>"

definition terminated_file :: os_file where
  "terminated_file =
     \<lparr>bytes = ''package x'' @ [CHR 0x0A] @ ''// TODO'' @ [CHR 0x0A], fault = EOF\<rparr>"

definition failing_file :: os_file where
  "failing_file = \<lparr>bytes = ''// TODO'' @ [CHR 0x0A], fault = PathError ''read error''\<rparr>"

text \<open>
  A tree in which the pattern occurs in two Go files, the same tree with the entries of
  both directories in another order, and a tree whose first file fails while it is read.
  The text file is not included by the path filter, so it is never opened.
\<close>

definition sample_tree :: "(string \<times> node) list" where
  "sample_tree =
     [(''legacy.go'', Regular (Inr terminated_file)),
      (''src'', Dir (Inr [(''link'', Other),
                          (''new.go'', Regular (Inr terminated_file)),
                          (''notes.txt'', Regular (Inl (PathError ''permission denied'')))]))]"

definition shuffled_tree :: "(string \<times> node) list" where
  "shuffled_tree =
     [(''src'', Dir (Inr [(''notes.txt'', Regular (Inl (PathError ''permission denied''))),
                          (''new.go'', Regular (Inr terminated_file)),
                          (''link'', Other)])),
      (''legacy.go'', Regular (Inr terminated_file))]"

definition failing_tree :: "(string \<times> node) list" where
  "failing_tree =
     [(''a.go'', Regular (Inr failing_file)),
      (''b.go'', Regular (Inr terminated_file))]"

definition sample_world :: "(string \<times> node) list \<Rightarrow> world" where
  "sample_world tree =
     \<lparr>ioutil_ReadFile = (\<lambda>path. Inr []), os_Open = (\<lambda>path. Inr terminated_file),
      cwd = Inr tree\<rparr>"

text \<open>
  A tree with an unreadable directory below the root, after a file in which the pattern
  occurs and before two other files; and two worlds in which the target file of
  single-file mode cannot be opened, or fails while it is read.
\<close>

definition locked_tree :: "(string \<times> node) list" where
  "locked_tree =
     [(''legacy.go'', Regular (Inr terminated_file)),
      (''src'', Dir (Inr [(''locked'', Dir (Inl (PathError ''permission denied''))),
                          (''new.go'', Regular (Inr terminated_file))])),
      (''z.go'', Regular (Inr terminated_file))]"

definition unopenable_world :: world where
  "unopenable_world =
     \<lparr>ioutil_ReadFile = (\<lambda>path. Inr []), os_Open = (\<lambda>path. Inl (PathError ''no such file'')),
      cwd = Inr sample_tree\<rparr>"

definition unreadable_world :: world where
  "unreadable_world =
     \<lparr>ioutil_ReadFile = (\<lambda>path. Inr []), os_Open = (\<lambda>path. Inr failing_file),
      cwd = Inr sample_tree\<rparr>"

section \<open>Go maps and the reconciliation\<close>

lemma collect_absent_filter:
  "collect_absent other acc ks = acc @ filter (\<lambda>k. \<not> index other k) ks"
  by (induction ks arbitrary: acc) auto

lemma index_of_key: "list_all snd m \<Longrightarrow> index m k = (k \<in> fst ` set m)"
proof (induction m)
  case Nil
  then show ?case by (simp add: index_def)
next
  case (Cons a m)
  then show ?case by (cases a) (auto simp: index_def)
qed

lemma index_wf: "wf_map m \<Longrightarrow> index m k = (k \<in> set (range_keys m))"
  by (simp add: wf_map_def index_of_key range_keys_def)

lemma Mismatches_fst:
  "fst (Mismatches r) = filter (\<lambda>k. \<not> index (expectedFilenames r) k) (range_keys (actualFilenames r))"
  by (simp add: Mismatches_def collect_absent_filter)

lemma Mismatches_snd:
  "snd (Mismatches r) = filter (\<lambda>k. \<not> index (actualFilenames r) k) (range_keys (expectedFilenames r))"
  by (simp add: Mismatches_def collect_absent_filter)

lemma actualFiles_wf: "wf_map (actualFilenames r) \<Longrightarrow> actualFiles r = set (range_keys (actualFilenames r))"
  by (auto simp: actualFiles_def index_wf)

lemma expectedFiles_wf: "wf_map (expectedFilenames r) \<Longrightarrow> expectedFiles r = set (range_keys (expectedFilenames r))"
  by (auto simp: expectedFiles_def index_wf)

lemma rule_failed_iff:
  "rule_failed r = (fst (Mismatches r) \<noteq> [] \<or> snd (Mismatches r) \<noteq> [])"
  by (simp add: rule_failed_def split: prod.splits)

text \<open>
  C2. In a rule whose maps are well formed, \<open>Mismatches\<close> returns the paths of
  \<open>actualFiles\<close> that are not in \<open>expectedFiles\<close> and the paths of \<open>expectedFiles\<close> that
  are not in \<open>actualFiles\<close>, each once; the test of \<open>main\<close> lets the rule pass exactly when
  both are empty.
\<close>

theorem Mismatches_difference:
  assumes "wf_rule r"
  shows "set (fst (Mismatches r)) = actualFiles r - expectedFiles r
       \<and> set (snd (Mismatches r)) = expectedFiles r - actualFiles r
       \<and> distinct (fst (Mismatches r)) \<and> distinct (snd (Mismatches r))
       \<and> (\<not> rule_failed r) = (set (fst (Mismatches r)) = {} \<and> set (snd (Mismatches r)) = {})"
proof -
  from assms have wa: "wf_map (actualFilenames r)" and we: "wf_map (expectedFilenames r)"
    by (simp_all add: wf_rule_def)
  have 1: "set (fst (Mismatches r)) = actualFiles r - expectedFiles r"
    by (auto simp: Mismatches_fst actualFiles_wf [OF wa] expectedFiles_def)
  have 2: "set (snd (Mismatches r)) = expectedFiles r - actualFiles r"
    by (auto simp: Mismatches_snd expectedFiles_wf [OF we] actualFiles_def)
  have 3: "distinct (fst (Mismatches r))" "distinct (snd (Mismatches r))"
    using wa we by (simp_all add: Mismatches_fst Mismatches_snd wf_map_def range_keys_def)
  have 4: "(\<not> rule_failed r) = (set (fst (Mismatches r)) = {} \<and> set (snd (Mismatches r)) = {})"
    by (simp add: rule_failed_iff)
  from 1 2 3 4 show ?thesis by blast
qed

text \<open>
  C6. The two lists that \<open>Mismatches\<close> returns for a rule with well-formed maps have no
  path in common.
\<close>

theorem Mismatches_disjoint:
  assumes "wf_rule r"
  shows "set (fst (Mismatches r)) \<inter> set (snd (Mismatches r)) = {}"
proof -
  from assms have wa: "wf_map (actualFilenames r)"
    by (simp add: wf_rule_def)
  show ?thesis
    by (auto simp: Mismatches_fst Mismatches_snd index_wf [OF wa])
qed

theorem Mismatches_difference_witness:
  "wf_rule scanned_rule
   \<and> set (fst (Mismatches scanned_rule)) = actualFiles scanned_rule - expectedFiles scanned_rule
   \<and> set (snd (Mismatches scanned_rule)) = expectedFiles scanned_rule - actualFiles scanned_rule
   \<and> fst (Mismatches scanned_rule) = [''new.go'']
   \<and> snd (Mismatches scanned_rule) = []
   \<and> rule_failed scanned_rule"
proof -
  have h: "wf_rule scanned_rule"
    by (simp add: wf_rule_def wf_map_def scanned_rule_def sample_rule_def)
  have v: "fst (Mismatches scanned_rule) = [''new.go'']" "snd (Mismatches scanned_rule) = []"
    by (simp_all add: Mismatches_def range_keys_def index_def scanned_rule_def sample_rule_def)
  from Mismatches_difference [OF h] h v show ?thesis
    by simp
qed

theorem Mismatches_disjoint_witness:
  "wf_rule scanned_rule
   \<and> set (fst (Mismatches scanned_rule)) \<inter> set (snd (Mismatches scanned_rule)) = {}"
proof -
  have h: "wf_rule scanned_rule"
    by (simp add: wf_rule_def wf_map_def scanned_rule_def sample_rule_def)
  from Mismatches_disjoint [OF h] h show ?thesis
    by simp
qed

lemma any_match_iff: "any_match L ps filename = (\<exists>p\<in>set ps. regexp_Match L p filename)"
  by (induction ps) auto

text \<open>
  C3. \<open>shouldCheck\<close> is false when some exclude pattern matches the path, also when an
  include pattern matches too; otherwise it is true when some include pattern matches;
  and it is false when no include pattern matches, whatever the exclude patterns are.
\<close>

theorem shouldCheck_policy:
  "((\<exists>p\<in>set (exclude' d). regexp_Match L p path) \<longrightarrow> \<not> shouldCheck L d path)
   \<and> (\<not> (\<exists>p\<in>set (exclude' d). regexp_Match L p path)
        \<and> (\<exists>p\<in>set (include' d). regexp_Match L p path) \<longrightarrow> shouldCheck L d path)
   \<and> (\<not> (\<exists>p\<in>set (include' d). regexp_Match L p path) \<longrightarrow> \<not> shouldCheck L d path)"
  by (simp add: shouldCheck_def any_match_iff)

lemma sample_matches:
  "occurs_in ''vendor'' ''vendor/a.go''" "occurs_in ''go'' ''vendor/a.go''"
  "\<not> occurs_in ''vendor'' ''a.go''" "occurs_in ''go'' ''a.go''"
  "\<not> occurs_in ''vendor'' ''a.txt''" "\<not> occurs_in ''go'' ''a.txt''"
  by simp_all

theorem shouldCheck_policy_witness:
  "(\<exists>p\<in>set (exclude' sample_defs). regexp_Match (literal sample_yaml) p ''vendor/a.go'')
   \<and> (\<exists>p\<in>set (include' sample_defs). regexp_Match (literal sample_yaml) p ''vendor/a.go'')
   \<and> \<not> shouldCheck (literal sample_yaml) sample_defs ''vendor/a.go''
   \<and> \<not> (\<exists>p\<in>set (exclude' sample_defs). regexp_Match (literal sample_yaml) p ''a.go'')
   \<and> (\<exists>p\<in>set (include' sample_defs). regexp_Match (literal sample_yaml) p ''a.go'')
   \<and> shouldCheck (literal sample_yaml) sample_defs ''a.go''
   \<and> \<not> (\<exists>p\<in>set (include' sample_defs). regexp_Match (literal sample_yaml) p ''a.txt'')
   \<and> \<not> shouldCheck (literal sample_yaml) sample_defs ''a.txt''"
proof -
  have m: "regexp_Match (literal sample_yaml) = occurs_in"
    by (simp add: literal_def)
  have a: "\<exists>p\<in>set (exclude' sample_defs). regexp_Match (literal sample_yaml) p ''vendor/a.go''"
    and b: "\<exists>p\<in>set (include' sample_defs). regexp_Match (literal sample_yaml) p ''vendor/a.go''"
    and c: "\<not> (\<exists>p\<in>set (exclude' sample_defs). regexp_Match (literal sample_yaml) p ''a.go'')"
    and d: "\<exists>p\<in>set (include' sample_defs). regexp_Match (literal sample_yaml) p ''a.go''"
    and e: "\<not> (\<exists>p\<in>set (include' sample_defs). regexp_Match (literal sample_yaml) p ''a.txt'')"
    by (simp_all add: m sample_defs_def)
  from a b c d e
    shouldCheck_policy [of sample_defs "literal sample_yaml" "''vendor/a.go''"]
    shouldCheck_policy [of sample_defs "literal sample_yaml" "''a.go''"]
    shouldCheck_policy [of sample_defs "literal sample_yaml" "''a.txt''"]
  show ?thesis by blast
qed

lemma index_assign_true: "index (assign_true m k) k' = (k' = k \<or> index m k')"
  by (simp add: index_def assign_true_def update_conv')

lemma index_make_map: "index make_map k = False"
  by (simp add: index_def make_map_def)

lemma range_keys_assign_true:
  "set (range_keys (assign_true m k)) = insert k (set (range_keys m))"
  by (auto simp: range_keys_def assign_true_def update_keys)

lemma wf_map_assign_true: "wf_map m \<Longrightarrow> wf_map (assign_true m k)"
proof -
  have "list_all snd m \<Longrightarrow> list_all snd (AList.update k True m)"
    by (induction m) auto
  then show "wf_map m \<Longrightarrow> wf_map (assign_true m k)"
    by (simp add: wf_map_def assign_true_def distinct_update)
qed

lemma wf_map_make_map: "wf_map make_map"
  by (simp add: wf_map_def make_map_def)

lemma assign_true_twice: "assign_true (assign_true m k) k = assign_true m k"
  by (simp add: assign_true_def)

lemma distinct_count_le_1: "distinct xs \<Longrightarrow> count_list xs x \<le> 1"
  by (induction xs) auto

lemma adjust_rule_expected:
  "expectedFilenames (adjust_rule t r) = (if index (expectedFilenames r) t then [(t, True)] else [])"
  by (simp add: adjust_rule_def make_map_def assign_true_def)

lemma adjust_rule_expectedFiles:
  "expectedFiles (adjust_rule t r) = (if t \<in> expectedFiles r then {t} else {})"
  by (auto simp: expectedFiles_def adjust_rule_expected index_def)

lemma adjust_rule_other:
  "actualFilenames (adjust_rule t r) = actualFilenames r" "pattern (adjust_rule t r) = pattern r"
  "Pattern (adjust_rule t r) = Pattern r" "Expected (adjust_rule t r) = Expected r"
  by (simp_all add: adjust_rule_def Let_def)

text \<open>
  C4. \<open>adjustExpectedFilenames\<close> replaces the expected files of every rule by the
  singleton of the target path when the target was expected, and by the empty set
  otherwise; the other fields of the rules stay as they are.
\<close>

theorem adjustExpectedFilenames_narrows:
  "map expectedFiles (Rules (adjustExpectedFilenames d targetPath))
     = map (\<lambda>r. if targetPath \<in> expectedFiles r then {targetPath} else {}) (Rules d)
   \<and> map expectedFilenames (Rules (adjustExpectedFilenames d targetPath))
     = map (\<lambda>r. if index (expectedFilenames r) targetPath then [(targetPath, True)] else [])
         (Rules d)
   \<and> map actualFilenames (Rules (adjustExpectedFilenames d targetPath))
     = map actualFilenames (Rules d)
   \<and> map pattern (Rules (adjustExpectedFilenames d targetPath)) = map pattern (Rules d)"
  by (simp add: adjustExpectedFilenames_def adjust_rule_expectedFiles adjust_rule_expected
      adjust_rule_other comp_def)

lemma match_rules_length: "length (match_rules L path line rs) = length rs"
  by (induction rs) auto

lemma match_rules_nth:
  "i < length rs \<Longrightarrow>
   match_rules L path line rs ! i =
     (if regexp_Match L (pattern (rs ! i)) line
      then (rs ! i)\<lparr>actualFilenames := assign_true (actualFilenames (rs ! i)) path\<rparr>
      else rs ! i)"
proof (induction rs arbitrary: i)
  case Nil
  then show ?case by simp
next
  case (Cons r rs)
  then show ?case by (cases i) auto
qed

lemma match_rules_map:
  "match_rules L path line rs =
     map (\<lambda>r. if regexp_Match L (pattern r) line
               then r\<lparr>actualFilenames := assign_true (actualFilenames r) path\<rparr> else r) rs"
  by (induction rs) auto

lemma match_rules_twice:
  "match_rules L path line (match_rules L path line rs) = match_rules L path line rs"
  by (induction rs) (auto simp: assign_true_twice)

text \<open>
  C5. \<open>matchAgainstLine\<close> treats every rule by its own pattern, wherever it stands
  in the list: a rule whose pattern matches the line gets the path added to its actual
  files, a rule whose pattern does not match is left unchanged. The path occurs at most
  once among the keys, and matching the same line again changes nothing.
\<close>

theorem matchAgainstLine_every_rule:
  assumes "i < length (Rules d)"
  shows "length (Rules (matchAgainstLine L d path line)) = length (Rules d)
       \<and> (regexp_Match L (pattern (Rules d ! i)) line \<longrightarrow>
            Rules (matchAgainstLine L d path line) ! i
              = (Rules d ! i)\<lparr>actualFilenames := assign_true (actualFilenames (Rules d ! i)) path\<rparr>
            \<and> actualFiles (Rules (matchAgainstLine L d path line) ! i)
              = insert path (actualFiles (Rules d ! i)))
       \<and> (\<not> regexp_Match L (pattern (Rules d ! i)) line \<longrightarrow>
            Rules (matchAgainstLine L d path line) ! i = Rules d ! i)
       \<and> (distinct (range_keys (actualFilenames (Rules d ! i))) \<longrightarrow>
            count_list (range_keys (actualFilenames (Rules (matchAgainstLine L d path line) ! i))) path
              \<le> 1)
       \<and> matchAgainstLine L (matchAgainstLine L d path line) path line
            = matchAgainstLine L d path line"
proof -
  let ?r = "Rules d ! i" and ?r' = "Rules (matchAgainstLine L d path line) ! i"
  have nth: "?r' = (if regexp_Match L (pattern ?r) line
      then ?r\<lparr>actualFilenames := assign_true (actualFilenames ?r) path\<rparr> else ?r)"
    using assms by (simp add: matchAgainstLine_def match_rules_nth)
  have 1: "length (Rules (matchAgainstLine L d path line)) = length (Rules d)"
    by (simp add: matchAgainstLine_def match_rules_length)
  have 2: "regexp_Match L (pattern ?r) line \<Longrightarrow>
      actualFiles ?r' = insert path (actualFiles ?r)"
    by (auto simp: nth actualFiles_def index_assign_true)
  have 3: "distinct (range_keys (actualFilenames ?r)) \<Longrightarrow>
      distinct (range_keys (actualFilenames ?r'))"
    by (simp add: nth range_keys_def assign_true_def distinct_update)
  have 4: "matchAgainstLine L (matchAgainstLine L d path line) path line
      = matchAgainstLine L d path line"
    by (simp add: matchAgainstLine_def match_rules_twice)
  have 5: "distinct (range_keys (actualFilenames ?r)) \<Longrightarrow>
      count_list (range_keys (actualFilenames ?r')) path \<le> 1"
    by (rule distinct_count_le_1 [OF 3])
  have 6: "regexp_Match L (pattern ?r) line \<Longrightarrow>
      ?r' = ?r\<lparr>actualFilenames := assign_true (actualFilenames ?r) path\<rparr>"
    and 7: "\<not> regexp_Match L (pattern ?r) line \<Longrightarrow> ?r' = ?r"
    by (simp_all add: nth)
  from 1 2 4 5 6 7 show ?thesis
    by blast
qed

theorem adjustExpectedFilenames_narrows_witness:
  "map expectedFiles (Rules narrowing_defs) = [{''a.go'', ''b.go''}]
   \<and> map expectedFiles (Rules (adjustExpectedFilenames narrowing_defs ''b.go'')) = [{''b.go''}]
   \<and> map expectedFiles (Rules (adjustExpectedFilenames narrowing_defs ''c.go'')) = [{}]"
proof -
  have e: "expectedFiles (sample_rule\<lparr>Expected := [''a.go'', ''b.go''],
      expectedFilenames := [(''a.go'', True), (''b.go'', True)]\<rparr>) = {''a.go'', ''b.go''}"
    by (auto simp: expectedFiles_def index_def split: if_splits)
  from e adjustExpectedFilenames_narrows [of narrowing_defs "''b.go''"]
    adjustExpectedFilenames_narrows [of narrowing_defs "''c.go''"]
  show ?thesis
    by (simp add: narrowing_defs_def)
qed

theorem matchAgainstLine_every_rule_witness:
  "(1::nat) < length (Rules two_rule_defs)
   \<and> regexp_Match (literal sample_yaml) (pattern (Rules two_rule_defs ! 0)) ''// TODO FIXME''
   \<and> regexp_Match (literal sample_yaml) (pattern (Rules two_rule_defs ! 1)) ''// TODO FIXME''
   \<and> distinct (range_keys (actualFilenames (Rules two_rule_defs ! 1)))
   \<and> actualFiles
         (Rules (matchAgainstLine (literal sample_yaml) two_rule_defs ''a.go'' ''// TODO FIXME'') ! 1)
       = {''a.go''}
   \<and> count_list
         (range_keys (actualFilenames
           (Rules (matchAgainstLine (literal sample_yaml) two_rule_defs ''a.go'' ''// TODO FIXME'') ! 1)))
         ''a.go'' \<le> 1"
proof -
  have m: "regexp_Match (literal sample_yaml) = occurs_in"
    by (simp add: literal_def)
  have h: "(1::nat) < length (Rules two_rule_defs)"
    by (simp add: two_rule_defs_def sample_defs_def)
  have a: "regexp_Match (literal sample_yaml) (pattern (Rules two_rule_defs ! 0)) ''// TODO FIXME''"
    and b: "regexp_Match (literal sample_yaml) (pattern (Rules two_rule_defs ! 1)) ''// TODO FIXME''"
    and c: "distinct (range_keys (actualFilenames (Rules two_rule_defs ! 1)))"
    and e: "actualFiles (Rules two_rule_defs ! 1) = {}"
    by (simp_all add: m two_rule_defs_def sample_defs_def sample_rule_def range_keys_def
        actualFiles_def index_def)
  note T = matchAgainstLine_every_rule
    [OF h, where L = "literal sample_yaml" and path = "''a.go''" and line = "''// TODO FIXME''"]
  from T b have "actualFiles
      (Rules (matchAgainstLine (literal sample_yaml) two_rule_defs ''a.go'' ''// TODO FIXME'') ! 1)
      = insert ''a.go'' (actualFiles (Rules two_rule_defs ! 1))"
    by blast
  with e have x: "actualFiles
      (Rules (matchAgainstLine (literal sample_yaml) two_rule_defs ''a.go'' ''// TODO FIXME'') ! 1)
      = {''a.go''}"
    by simp
  from T c have y: "count_list
      (range_keys (actualFilenames
        (Rules (matchAgainstLine (literal sample_yaml) two_rule_defs ''a.go'' ''// TODO FIXME'') ! 1)))
      ''a.go'' \<le> 1"
    by blast
  from h a b c x y show ?thesis
    by blast
qed

section \<open>Reading files and compiling patterns\<close>

declare read_loop.simps [simp del] complete_lines.simps [simp del]

lemma complete_lines_None: "read_until (CHR 0x0A) bs = None \<Longrightarrow> complete_lines bs = []"
  by (subst complete_lines.simps) simp

lemma complete_lines_Some:
  "read_until (CHR 0x0A) bs = Some (line, rest) \<Longrightarrow> complete_lines bs = line # complete_lines rest"
  by (subst complete_lines.simps) simp

lemma read_loop_lines:
  "read_loop L d filename reader =
     (if fault reader = EOF then None else Some (fault reader),
      foldl (\<lambda>d' line. matchAgainstLine L d' filename line) d (complete_lines (bytes reader)))"
proof (induction L d filename reader rule: read_loop.induct)
  case (1 L d filename reader)
  show ?case
  proof (cases "read_until (CHR 0x0A) (bytes reader)")
    case None
    then show ?thesis
      by (subst read_loop.simps) (simp add: ReadString_def complete_lines_None)
  next
    case (Some a)
    obtain line rest where a: "a = (line, rest)" by (cases a)
    have rs: "ReadString reader (CHR 0x0A) = ((line, None), reader\<lparr>bytes := rest\<rparr>)"
      using Some a by (simp add: ReadString_def)
    have "read_loop L d filename reader =
        read_loop L (matchAgainstLine L d filename line) filename (reader\<lparr>bytes := rest\<rparr>)"
      by (subst read_loop.simps) (simp add: rs)
    also have "\<dots> = (if fault reader = EOF then None else Some (fault reader),
        foldl (\<lambda>d' line. matchAgainstLine L d' filename line)
          (matchAgainstLine L d filename line) (complete_lines rest))"
      using "1.IH" [OF rs [symmetric] refl refl] by simp
    finally show ?thesis
      using Some a by (simp add: complete_lines_Some)
  qed
qed

lemma matchAgainstFile_lines:
  "matchAgainstFile L d filename (Inr reader) =
     (if fault reader = EOF then None else Some (fault reader),
      feed_into L d (map (Pair filename) (complete_lines (bytes reader))))"
  by (simp add: matchAgainstFile_def read_loop_lines feed_into_def foldl_map)

lemma read_until_None_iff: "(read_until delim bs = None) = (delim \<notin> set bs)"
  by (induction bs) (auto split: option.splits)

lemma read_until_split: "read_until delim bs = Some (line, rest) \<Longrightarrow> bs = line @ rest"
  by (induction bs arbitrary: line) (auto split: if_splits option.splits)

lemma read_until_append:
  "read_until delim bs = Some (line, rest) \<Longrightarrow> read_until delim (bs @ tail) = Some (line, rest @ tail)"
  by (induction bs arbitrary: line) (auto split: if_splits option.splits)

lemma complete_lines_tail:
  "CHR 0x0A \<notin> set tail \<Longrightarrow> bs = [] \<or> last bs = CHR 0x0A \<Longrightarrow>
   complete_lines (bs @ tail) = complete_lines bs"
proof (induction bs rule: complete_lines.induct)
  case (1 bs)
  show ?case
  proof (cases "read_until (CHR 0x0A) bs")
    case None
    then have "CHR 0x0A \<notin> set bs"
      by (simp add: read_until_None_iff)
    with "1.prems"(2) have "bs = []"
      by (cases bs rule: rev_cases) auto
    with "1.prems"(1) show ?thesis
      by (simp add: complete_lines_None read_until_None_iff)
  next
    case (Some a)
    obtain line rest where a: "a = (line, rest)" by (cases a)
    from Some a have split: "bs = line @ rest"
      by (simp add: read_until_split)
    with "1.prems"(2) have r: "rest = [] \<or> last rest = CHR 0x0A"
      by (cases rest) auto
    from Some a have "complete_lines (bs @ tail) = line # complete_lines (rest @ tail)"
      by (simp add: complete_lines_Some read_until_append)
    also have "complete_lines (rest @ tail) = complete_lines rest"
      using "1.IH" [OF Some [unfolded a] refl "1.prems"(1) r] .
    finally show ?thesis
      using Some a by (simp add: complete_lines_Some)
  qed
qed

text \<open>
  In general, what follows the last newline of a file plays no part in the scan.
\<close>

lemma unterminated_tail_ignored:
  assumes "CHR 0x0A \<notin> set tail" and "bs = [] \<or> last bs = CHR 0x0A"
  shows "matchAgainstFile L d filename (Inr \<lparr>bytes = bs @ tail, fault = EOF\<rparr>)
       = matchAgainstFile L d filename (Inr \<lparr>bytes = bs, fault = EOF\<rparr>)"
  by (simp add: matchAgainstFile_lines complete_lines_tail [OF assms])

lemma literal_simps:
  "regexp_Match (literal y) = occurs_in" "regexp_Compile (literal y) = literal_Compile"
  "yaml_Unmarshal (literal y) input = Inr y" "filepath_Join (literal y) = path_Join"
  by (simp_all add: literal_def)

text \<open>
  C1. A rule whose pattern occurs only in the last line of a file, where that line has
  no newline after it, does not get the path of the file: \<open>matchAgainstFile\<close> returns
  at \<open>io.EOF\<close> without passing the data read so far to \<open>matchAgainstLine\<close>, and the
  state is the one before the call. With a newline after the last line, the path is
  recorded.
\<close>

theorem unterminated_last_line_dropped:
  "matchAgainstFile (literal sample_yaml) sample_defs ''new.go'' (Inr unterminated_file)
     = (None, sample_defs)
   \<and> map actualFiles (Rules sample_defs) = [{}]
   \<and> fst (matchAgainstFile (literal sample_yaml) sample_defs ''new.go'' (Inr terminated_file))
     = None
   \<and> map actualFiles
        (Rules (snd (matchAgainstFile (literal sample_yaml) sample_defs ''new.go''
                       (Inr terminated_file))))
     = [{''new.go''}]"
proof -
  have 1: "matchAgainstFile (literal sample_yaml) sample_defs ''new.go'' (Inr unterminated_file)
      = (None, sample_defs)"
    by (simp add: matchAgainstFile_lines unterminated_file_def complete_lines_None
        complete_lines_Some feed_into_def matchAgainstLine_def literal_simps sample_defs_def
        sample_rule_def)
  have 2: "map actualFiles (Rules sample_defs) = [{}]"
    by (simp add: sample_defs_def sample_rule_def actualFiles_def index_def)
  have 3: "matchAgainstFile (literal sample_yaml) sample_defs ''new.go'' (Inr terminated_file)
      = (None, sample_defs\<lparr>Rules := [sample_rule\<lparr>actualFilenames := [(''new.go'', True)]\<rparr>]\<rparr>)"
    by (simp add: matchAgainstFile_lines terminated_file_def complete_lines_None
        complete_lines_Some feed_into_def matchAgainstLine_def literal_simps sample_defs_def
        sample_rule_def assign_true_def)
  have 4: "actualFiles (sample_rule\<lparr>actualFilenames := [(''new.go'', True)]\<rparr>) = {''new.go''}"
    by (auto simp: actualFiles_def index_def split: if_splits)
  from 1 2 3 4 show ?thesis
    by simp
qed

lemma compile_all_first_failure:
  "compile_all L exprs = (case first_failure L exprs of
      Some err \<Rightarrow> Inl err | None \<Rightarrow> Inr (map (\<lambda>e. projr (regexp_Compile L e)) exprs))"
  by (induction exprs) (auto split: sum.splits option.splits)

lemma first_failure_append:
  "first_failure L (xs @ ys) =
     (case first_failure L xs of Some err \<Rightarrow> Some err | None \<Rightarrow> first_failure L ys)"
  by (induction xs) (auto split: sum.splits)

lemma first_failure_None_iff:
  "(first_failure L xs = None) = (\<forall>x\<in>set xs. \<not> isl (regexp_Compile L x))"
  by (induction xs) (auto split: sum.splits)

lemma compile_rules_first_failure:
  "first_failure L (leading_patterns ys) = Some err \<Longrightarrow> compile_rules L ys = Inl (Error err)"
proof (induction ys)
  case Nil
  then show ?case by simp
next
  case (Cons y ys)
  then show ?case by (cases y) (auto split: sum.splits)
qed

lemma compile_rules_no_defs:
  "Some r \<in> set ys \<Longrightarrow> isl (regexp_Compile L (yPattern r)) \<Longrightarrow> isl (compile_rules L ys)"
proof (induction ys)
  case Nil
  then show ?case by simp
next
  case (Cons y ys)
  show ?case
  proof (cases y)
    case None
    then show ?thesis by simp
  next
    case (Some a)
    show ?thesis
    proof (cases "regexp_Compile L (yPattern a)")
      case (Inl e)
      with Some show ?thesis by simp
    next
      case (Inr p)
      with Cons Some have "isl (compile_rules L ys)" by auto
      with Some Inr show ?thesis by (auto split: sum.splits)
    qed
  qed
qed

lemma rule_patterns_set:
  "set (concat (map (case_option [] (\<lambda>r. [yPattern r])) ys)) = {yPattern r |r. Some r \<in> set ys}"
  by (induction ys) (auto split: option.splits)

text \<open>
  C8. When the configuration deserialises and some pattern does not compile, \<open>parse\<close>
  yields no definitions. When the first pattern that fails, in the order include, exclude,
  rules, stands before any nil rule entry, \<open>parse\<close> returns the error of
  \<open>regexp.Compile\<close> for that pattern as it is: a value that depends on the text of the
  pattern only.
\<close>

theorem parse_returns_compiler_error:
  assumes "yaml_Unmarshal L input = Inr y"
  shows "(first_failure L (yInclude y @ yExclude y @ leading_patterns (yRules y)) = Some err
            \<longrightarrow> parse L input = Inl (Error err))
       \<and> ((\<exists>expr\<in>set (all_patterns y). isl (regexp_Compile L expr)) \<longrightarrow> isl (parse L input))"
proof (intro conjI impI)
  assume ff: "first_failure L (yInclude y @ yExclude y @ leading_patterns (yRules y)) = Some err"
  show "parse L input = Inl (Error err)"
  proof (cases "first_failure L (yInclude y)")
    case (Some e)
    with ff assms show ?thesis
      by (simp add: parse_def compile_all_first_failure first_failure_append)
  next
    case None
    note inc = None
    show ?thesis
    proof (cases "first_failure L (yExclude y)")
      case (Some e)
      with ff inc assms show ?thesis
        by (simp add: parse_def compile_all_first_failure first_failure_append)
    next
      case None
      with ff inc have "first_failure L (leading_patterns (yRules y)) = Some err"
        by (simp add: first_failure_append)
      from compile_rules_first_failure [OF this] inc None assms show ?thesis
        by (simp add: parse_def compile_all_first_failure)
    qed
  qed
next
  assume bad: "\<exists>expr\<in>set (all_patterns y). isl (regexp_Compile L expr)"
  show "isl (parse L input)"
  proof (cases "first_failure L (yInclude y)")
    case (Some e)
    with assms show ?thesis
      by (simp add: parse_def compile_all_first_failure)
  next
    case None
    note inc = None
    show ?thesis
    proof (cases "first_failure L (yExclude y)")
      case (Some e)
      with inc assms show ?thesis
        by (simp add: parse_def compile_all_first_failure)
    next
      case None
      with inc bad obtain r where "Some r \<in> set (yRules y)" "isl (regexp_Compile L (yPattern r))"
        by (auto simp: all_patterns_def first_failure_None_iff rule_patterns_set)
      from compile_rules_no_defs [OF this] inc None assms show ?thesis
        by (auto simp: parse_def compile_all_first_failure split: sum.splits)
    qed
  qed
qed

lemma literal_Compile_paren: "literal_Compile ''('' = Inl (SyntaxError ''('')"
  by (simp add: literal_Compile_def)

lemma literal_Compile_words:
  "literal_Compile ''go'' = Inr ''go''" "literal_Compile ''vendor'' = Inr ''vendor''"
  "literal_Compile ''TODO'' = Inr ''TODO''"
  by (simp_all add: literal_Compile_def)

text \<open>
  The same malformed pattern as the first include pattern of one configuration and as
  the pattern of the second rule of another: \<open>parse\<close> returns the same error for both,
  so the error does not tell the position of the pattern.
\<close>

theorem parse_error_has_no_position:
  "parse (literal bad_include_yaml) [] = Inl (Error (SyntaxError ''(''))
   \<and> parse (literal bad_rule_yaml) [] = Inl (Error (SyntaxError ''(''))
   \<and> yInclude bad_include_yaml ! 0 = ''(''
   \<and> yRules bad_rule_yaml ! 1 = Some \<lparr>yPattern = ''('', yExpected = []\<rparr>"
  by (simp add: parse_def literal_simps bad_include_yaml_def bad_rule_yaml_def
      literal_Compile_paren literal_Compile_words)

theorem parse_returns_compiler_error_witness:
  "yaml_Unmarshal (literal bad_rule_yaml) [] = Inr bad_rule_yaml
   \<and> first_failure (literal bad_rule_yaml)
        (yInclude bad_rule_yaml @ yExclude bad_rule_yaml @ leading_patterns (yRules bad_rule_yaml))
       = Some (SyntaxError ''('')
   \<and> (\<exists>expr\<in>set (all_patterns bad_rule_yaml). isl (regexp_Compile (literal bad_rule_yaml) expr))
   \<and> parse (literal bad_rule_yaml) [] = Inl (Error (SyntaxError ''(''))
   \<and> isl (parse (literal bad_rule_yaml) [])"
proof -
  have h: "yaml_Unmarshal (literal bad_rule_yaml) [] = Inr bad_rule_yaml"
    by (simp add: literal_simps)
  have f: "first_failure (literal bad_rule_yaml)
        (yInclude bad_rule_yaml @ yExclude bad_rule_yaml @ leading_patterns (yRules bad_rule_yaml))
       = Some (SyntaxError ''('')"
    by (simp add: literal_simps bad_rule_yaml_def literal_Compile_paren literal_Compile_words)
  have b: "\<exists>expr\<in>set (all_patterns bad_rule_yaml). isl (regexp_Compile (literal bad_rule_yaml) expr)"
    by (simp add: literal_simps bad_rule_yaml_def all_patterns_def literal_Compile_paren)
  from parse_returns_compiler_error [OF h, of "SyntaxError ''(''"] h f b show ?thesis
    by blast
qed

section \<open>The walk as a feed of lines\<close>

lemma shouldCheck_matchAgainstLine: "shouldCheck L (matchAgainstLine L d path line) = shouldCheck L d"
  by (rule ext) (simp add: shouldCheck_def matchAgainstLine_def)

lemma feed_into_Nil: "feed_into L d [] = d"
  by (simp add: feed_into_def)

lemma feed_into_Cons:
  "feed_into L d ((path, line) # pairs) = feed_into L (matchAgainstLine L d path line) pairs"
  by (simp add: feed_into_def)

lemma feed_into_append: "feed_into L d (xs @ ys) = feed_into L (feed_into L d xs) ys"
  by (simp add: feed_into_def)

lemma shouldCheck_feed_into: "shouldCheck L (feed_into L d pairs) = shouldCheck L d"
proof (induction pairs arbitrary: d)
  case Nil
  then show ?case by (simp add: feed_into_Nil)
next
  case (Cons a pairs)
  then show ?case
    by (cases a) (simp add: feed_into_Cons shouldCheck_matchAgainstLine)
qed

lemma loop_step:
  assumes v: "(rv \<longrightarrow> visit = (None, feed_into L d fv)) \<and> (\<not> rv \<longrightarrow> fst visit \<noteq> None)"
    and r: "\<And>d'. visit = (None, d') \<Longrightarrow>
              (rr \<longrightarrow> rest d' = (None, feed_into L d' fr)) \<and> (\<not> rr \<longrightarrow> fst (rest d') \<noteq> None)"
  shows "(rv \<and> rr \<longrightarrow>
            (case visit of (None, d') \<Rightarrow> rest d' | (Some err, d') \<Rightarrow> (Some err, d'))
              = (None, feed_into L d (fv @ fr)))
       \<and> (\<not> (rv \<and> rr) \<longrightarrow>
            fst (case visit of (None, d') \<Rightarrow> rest d' | (Some err, d') \<Rightarrow> (Some err, d')) \<noteq> None)"
proof (cases rv)
  case True
  with v have e: "visit = (None, feed_into L d fv)" by simp
  from r [OF e] True show ?thesis
    by (auto simp: e feed_into_append)
next
  case False
  with v obtain err d' where "visit = (Some err, d')"
    by (cases visit) auto
  with False show ?thesis by simp
qed

lemma explore_feed:
  "(readable (filepath_Join L) (shouldCheck L d) dirname (Dir listing) \<longrightarrow>
      exploreDir L d dirname listing
        = (None, feed_into L d (feed (filepath_Join L) (shouldCheck L d) dirname (Dir listing))))
   \<and> (\<not> readable (filepath_Join L) (shouldCheck L d) dirname (Dir listing) \<longrightarrow>
      fst (exploreDir L d dirname listing) \<noteq> None)"
  "(readable (filepath_Join L) (shouldCheck L d) dirname (Dir (Inr files)) \<longrightarrow>
      explore_files L d dirname files
        = (None, feed_into L d (feed (filepath_Join L) (shouldCheck L d) dirname (Dir (Inr files)))))
   \<and> (\<not> readable (filepath_Join L) (shouldCheck L d) dirname (Dir (Inr files)) \<longrightarrow>
      fst (explore_files L d dirname files) \<noteq> None)"
proof (induction L d dirname listing and L d dirname files rule: exploreDir_explore_files.induct)
  case (1 L d dirname err)
  show ?case by simp
next
  case (2 L d dirname files)
  then show ?case by simp
next
  case (3 L d dirname)
  show ?case by (simp add: feed_into_Nil)
next
  case (4 L d dirname name fi files)
  let ?J = "filepath_Join L" and ?chk = "shouldCheck L d"
  let ?x = "filepath_Join L dirname name"
  show ?case
  proof (cases fi)
    case (Dir sub)
    have v: "(readable ?J ?chk ?x (Dir sub) \<longrightarrow>
          exploreDir L d ?x sub = (None, feed_into L d (feed ?J ?chk ?x (Dir sub))))
        \<and> (\<not> readable ?J ?chk ?x (Dir sub) \<longrightarrow> fst (exploreDir L d ?x sub) \<noteq> None)"
      using "4.IH"(1) [OF refl Dir] .
    have r: "\<And>d'. exploreDir L d ?x sub = (None, d') \<Longrightarrow>
        (readable ?J ?chk dirname (Dir (Inr files)) \<longrightarrow>
           explore_files L d' dirname files
             = (None, feed_into L d' (feed ?J ?chk dirname (Dir (Inr files)))))
        \<and> (\<not> readable ?J ?chk dirname (Dir (Inr files)) \<longrightarrow>
           fst (explore_files L d' dirname files) \<noteq> None)"
    proof -
      fix d'
      assume e: "exploreDir L d ?x sub = (None, d')"
      with v have "d' = feed_into L d (feed ?J ?chk ?x (Dir sub))"
        by (cases "readable ?J ?chk ?x (Dir sub)") auto
      then have c: "shouldCheck L d' = ?chk"
        by (simp add: shouldCheck_feed_into)
      from "4.IH"(2) [OF refl Dir e [symmetric] refl] show "?thesis d'"
        by (simp only: c)
    qed
    from loop_step [where rest = "\<lambda>d'. explore_files L d' dirname files", OF v r] Dir
    show ?thesis by simp
  next
    case (Regular opened)
    show ?thesis
    proof (cases "?chk ?x")
      case True
      have v: "(readable ?J ?chk ?x (Regular opened) \<longrightarrow>
            matchAgainstFile L d ?x opened = (None, feed_into L d (feed ?J ?chk ?x (Regular opened))))
          \<and> (\<not> readable ?J ?chk ?x (Regular opened) \<longrightarrow>
            fst (matchAgainstFile L d ?x opened) \<noteq> None)"
        using True
        by (cases opened) (simp_all add: matchAgainstFile_lines, simp add: matchAgainstFile_def)
      have r: "\<And>d'. matchAgainstFile L d ?x opened = (None, d') \<Longrightarrow>
          (readable ?J ?chk dirname (Dir (Inr files)) \<longrightarrow>
             explore_files L d' dirname files
               = (None, feed_into L d' (feed ?J ?chk dirname (Dir (Inr files)))))
          \<and> (\<not> readable ?J ?chk dirname (Dir (Inr files)) \<longrightarrow>
             fst (explore_files L d' dirname files) \<noteq> None)"
      proof -
        fix d'
        assume e: "matchAgainstFile L d ?x opened = (None, d')"
        with v have "d' = feed_into L d (feed ?J ?chk ?x (Regular opened))"
          by (cases "readable ?J ?chk ?x (Regular opened)") auto
        then have c: "shouldCheck L d' = ?chk"
          by (simp add: shouldCheck_feed_into)
        from "4.IH"(3) [OF refl Regular True e [symmetric] refl] show "?thesis d'"
          by (simp only: c)
      qed
      from loop_step [where rest = "\<lambda>d'. explore_files L d' dirname files", OF v r] Regular True
      show ?thesis by simp
    next
      case False
      from "4.IH"(4) [OF refl Regular False] Regular False show ?thesis
        by simp
    qed
  next
    case Other
    from "4.IH"(5) [OF refl Other] Other show ?thesis
      by simp
  qed
qed

lemma explore_files_stops:
  "fst (explore_files L d dirname files) = Some err \<Longrightarrow>
   explore_files L d dirname (files @ later) = explore_files L d dirname files"
proof (induction files arbitrary: d)
  case Nil
  then show ?case by simp
next
  case (Cons a files)
  obtain name fi where a: "a = (name, fi)" by (cases a)
  from Cons show ?case
    unfolding a by (cases fi) (auto simp: Let_def split: prod.splits option.splits if_splits)
qed

lemma list_all2_map_eq: "list_all2 (\<lambda>a b. f a = f b) xs ys \<Longrightarrow> map f xs = map f ys"
  by (induction xs ys rule: list_all2_induct) auto

lemma list_all_via_map: "list_all f xs = (\<forall>b\<in>set (map f xs). b)"
  by (auto simp: list_all_iff)

lemma set_concat_via_map: "set (concat (map f xs)) = \<Union> (set (map (\<lambda>x. set (f x)) xs))"
  by auto

lemma shuffled_same_feed:
  "shuffled a b \<Longrightarrow>
   (\<forall>path. readable J chk path a = readable J chk path b
          \<and> set (feed J chk path a) = set (feed J chk path b))"
proof (induction rule: shuffled.induct)
  case (shuffled_Regular opened)
  show ?case by blast
next
  case shuffled_Other
  show ?case by blast
next
  case (shuffled_Unreadable err)
  show ?case by blast
next
  case (shuffled_Dir files files' files'')
  show ?case
  proof
    fix path
    let ?r = "\<lambda>(name, fi). readable J chk (J path name) fi"
    let ?f = "\<lambda>(name, fi). set (feed J chk (J path name) fi)"
    from shuffled_Dir(1) have "list_all2 (\<lambda>a b. ?r a = ?r b) files files'"
      by (rule list_all2_mono) (auto split: prod.splits)
    then have r: "map ?r files = map ?r files'"
      by (rule list_all2_map_eq)
    from shuffled_Dir(1) have "list_all2 (\<lambda>a b. ?f a = ?f b) files files'"
      by (rule list_all2_mono) (auto split: prod.splits)
    then have f: "map ?f files = map ?f files'"
      by (rule list_all2_map_eq)
    from shuffled_Dir(2) have s: "set files' = set files''"
      by (rule mset_eq_setD)
    have "list_all ?r files = list_all ?r files''"
      unfolding list_all_via_map r by (simp add: s)
    moreover have "(\<Union>x\<in>set files. ?f x) = (\<Union>x\<in>set files''. ?f x)"
    proof -
      have "(\<Union>x\<in>set files. ?f x) = \<Union> (set (map ?f files))" by simp
      also have "\<dots> = \<Union> (set (map ?f files'))" by (simp only: f)
      also have "\<dots> = (\<Union>x\<in>set files''. ?f x)" by (simp add: s)
      finally show ?thesis .
    qed
    ultimately show "readable J chk path (Dir (Inr files)) = readable J chk path (Dir (Inr files''))
        \<and> set (feed J chk path (Dir (Inr files))) = set (feed J chk path (Dir (Inr files'')))"
      by (simp add: case_prod_unfold)
  qed
qed

lemma index_map_of: "index m k = (map_of m k = Some True)"
  by (auto simp: index_def split: option.splits)

lemma range_keys_dom: "set (range_keys m) = dom (map_of m)"
  by (simp add: range_keys_def dom_map_of_conv_image_fst)

lemma map_of_assign_true: "map_of (assign_true m k) = (map_of m)(k \<mapsto> True)"
  by (simp add: assign_true_def update_conv')

text \<open>What is observed of a rule depends on its two maps as functions only.\<close>

lemma observed_by_map_of:
  assumes "map_of (actualFilenames r) = map_of (actualFilenames r')"
    and "map_of (expectedFilenames r) = map_of (expectedFilenames r')"
  shows "actualFiles r = actualFiles r'" "expectedFiles r = expectedFiles r'"
    "set (fst (Mismatches r)) = set (fst (Mismatches r'))"
    "set (snd (Mismatches r)) = set (snd (Mismatches r'))"
    "rule_failed r = rule_failed r'"
proof -
  show "actualFiles r = actualFiles r'" "expectedFiles r = expectedFiles r'"
    using assms by (simp_all add: actualFiles_def expectedFiles_def index_map_of)
  show a: "set (fst (Mismatches r)) = set (fst (Mismatches r'))"
    using assms by (simp add: Mismatches_fst range_keys_dom index_map_of)
  show b: "set (snd (Mismatches r)) = set (snd (Mismatches r'))"
    using assms by (simp add: Mismatches_snd range_keys_dom index_map_of)
  have "rule_failed r = (set (fst (Mismatches r)) \<noteq> {} \<or> set (snd (Mismatches r)) \<noteq> {})"
    "rule_failed r' = (set (fst (Mismatches r')) \<noteq> {} \<or> set (snd (Mismatches r')) \<noteq> {})"
    by (simp_all add: rule_failed_iff)
  with a b show "rule_failed r = rule_failed r'"
    by simp
qed

lemma feed_into_rule:
  "length (Rules (feed_into L d pairs)) = length (Rules d)
   \<and> (\<forall>i<length (Rules d).
        map_of (actualFilenames (Rules (feed_into L d pairs) ! i))
          = (\<lambda>k. if \<exists>line. (k, line) \<in> set pairs \<and> regexp_Match L (pattern (Rules d ! i)) line
                  then Some True else map_of (actualFilenames (Rules d ! i)) k)
        \<and> expectedFilenames (Rules (feed_into L d pairs) ! i) = expectedFilenames (Rules d ! i)
        \<and> pattern (Rules (feed_into L d pairs) ! i) = pattern (Rules d ! i))"
proof (induction pairs arbitrary: d)
  case Nil
  show ?case by (simp add: feed_into_Nil)
next
  case (Cons a pairs)
  obtain path line where a: "a = (path, line)" by (cases a)
  let ?d1 = "matchAgainstLine L d path line"
  have len: "length (Rules ?d1) = length (Rules d)"
    by (simp add: matchAgainstLine_def match_rules_length)
  have nth: "\<And>i. i < length (Rules d) \<Longrightarrow>
      Rules ?d1 ! i = (if regexp_Match L (pattern (Rules d ! i)) line
        then (Rules d ! i)\<lparr>actualFilenames := assign_true (actualFilenames (Rules d ! i)) path\<rparr>
        else Rules d ! i)"
    by (simp add: matchAgainstLine_def match_rules_nth)
  note IH = Cons.IH [of ?d1]
  show ?case
  proof (intro conjI allI impI)
    show "length (Rules (feed_into L d (a # pairs))) = length (Rules d)"
      using IH len by (simp add: a feed_into_Cons)
  next
    fix i assume i: "i < length (Rules d)"
    with IH len show "expectedFilenames (Rules (feed_into L d (a # pairs)) ! i)
        = expectedFilenames (Rules d ! i)"
      by (simp add: a feed_into_Cons nth)
    from i IH len show "pattern (Rules (feed_into L d (a # pairs)) ! i) = pattern (Rules d ! i)"
      by (simp add: a feed_into_Cons nth)
    from i IH len have "map_of (actualFilenames (Rules (feed_into L d (a # pairs)) ! i))
        = (\<lambda>k. if \<exists>line. (k, line) \<in> set pairs \<and> regexp_Match L (pattern (Rules ?d1 ! i)) line
                then Some True else map_of (actualFilenames (Rules ?d1 ! i)) k)"
      by (simp add: a feed_into_Cons)
    also have "\<dots> = (\<lambda>k. if \<exists>line. (k, line) \<in> set (a # pairs)
                                \<and> regexp_Match L (pattern (Rules d ! i)) line
                then Some True else map_of (actualFilenames (Rules d ! i)) k)"
      by (rule ext) (auto simp: a nth [OF i] map_of_assign_true)
    finally show "map_of (actualFilenames (Rules (feed_into L d (a # pairs)) ! i))
        = (\<lambda>k. if \<exists>line. (k, line) \<in> set (a # pairs)
                          \<and> regexp_Match L (pattern (Rules d ! i)) line
                then Some True else map_of (actualFilenames (Rules d ! i)) k)" .
  qed
qed

lemma map_eq_by_nth:
  "length xs = length ys \<Longrightarrow> (\<And>i. i < length xs \<Longrightarrow> f (xs ! i) = f (ys ! i)) \<Longrightarrow>
   map f xs = map f ys"
  by (simp add: list_eq_iff_nth_eq)

lemma feed_into_same_set:
  assumes "set pairs = set pairs'"
  shows "map actualFiles (Rules (feed_into L d pairs)) = map actualFiles (Rules (feed_into L d pairs'))"
    "map (\<lambda>r. set (fst (Mismatches r))) (Rules (feed_into L d pairs))
       = map (\<lambda>r. set (fst (Mismatches r))) (Rules (feed_into L d pairs'))"
    "map (\<lambda>r. set (snd (Mismatches r))) (Rules (feed_into L d pairs))
       = map (\<lambda>r. set (snd (Mismatches r))) (Rules (feed_into L d pairs'))"
    "map rule_failed (Rules (feed_into L d pairs)) = map rule_failed (Rules (feed_into L d pairs'))"
proof -
  let ?d1 = "feed_into L d pairs" and ?d2 = "feed_into L d pairs'"
  note A = feed_into_rule [of L d pairs] and B = feed_into_rule [of L d pairs']
  have len: "length (Rules ?d1) = length (Rules ?d2)"
    using A B by simp
  have same: "\<And>i. i < length (Rules ?d1) \<Longrightarrow>
      map_of (actualFilenames (Rules ?d1 ! i)) = map_of (actualFilenames (Rules ?d2 ! i))
      \<and> map_of (expectedFilenames (Rules ?d1 ! i)) = map_of (expectedFilenames (Rules ?d2 ! i))"
    using A B assms by simp
  have obs: "\<And>i. i < length (Rules ?d1) \<Longrightarrow>
      actualFiles (Rules ?d1 ! i) = actualFiles (Rules ?d2 ! i)
      \<and> set (fst (Mismatches (Rules ?d1 ! i))) = set (fst (Mismatches (Rules ?d2 ! i)))
      \<and> set (snd (Mismatches (Rules ?d1 ! i))) = set (snd (Mismatches (Rules ?d2 ! i)))
      \<and> rule_failed (Rules ?d1 ! i) = rule_failed (Rules ?d2 ! i)"
    using observed_by_map_of [OF same [THEN conjunct1] same [THEN conjunct2]] by blast
  show "map actualFiles (Rules ?d1) = map actualFiles (Rules ?d2)"
    by (rule map_eq_by_nth [OF len]) (simp add: obs)
  show "map (\<lambda>r. set (fst (Mismatches r))) (Rules ?d1) = map (\<lambda>r. set (fst (Mismatches r))) (Rules ?d2)"
    by (rule map_eq_by_nth [OF len]) (simp add: obs)
  show "map (\<lambda>r. set (snd (Mismatches r))) (Rules ?d1) = map (\<lambda>r. set (snd (Mismatches r))) (Rules ?d2)"
    by (rule map_eq_by_nth [OF len]) (simp add: obs)
  show "map rule_failed (Rules ?d1) = map rule_failed (Rules ?d2)"
    by (rule map_eq_by_nth [OF len]) (simp add: obs)
qed

text \<open>
  C7. For two trees that differ only in the order of their directory entries, the walk
  fails on both or on neither; when it succeeds, every rule has the same actual files
  after both walks, and \<open>Mismatches\<close> returns the same two sets of paths, with the same
  verdict.
\<close>

theorem scan_order_independent:
  assumes "shuffled (Dir listing) (Dir listing')"
  shows "(fst (exploreDir L d dirname listing) = None)
           = (fst (exploreDir L d dirname listing') = None)
       \<and> (fst (exploreDir L d dirname listing) = None \<longrightarrow>
            map actualFiles (Rules (snd (exploreDir L d dirname listing)))
              = map actualFiles (Rules (snd (exploreDir L d dirname listing')))
          \<and> map (\<lambda>r. set (fst (Mismatches r))) (Rules (snd (exploreDir L d dirname listing)))
              = map (\<lambda>r. set (fst (Mismatches r))) (Rules (snd (exploreDir L d dirname listing')))
          \<and> map (\<lambda>r. set (snd (Mismatches r))) (Rules (snd (exploreDir L d dirname listing)))
              = map (\<lambda>r. set (snd (Mismatches r))) (Rules (snd (exploreDir L d dirname listing')))
          \<and> map rule_failed (Rules (snd (exploreDir L d dirname listing)))
              = map rule_failed (Rules (snd (exploreDir L d dirname listing'))))"
proof -
  let ?J = "filepath_Join L" and ?chk = "shouldCheck L d"
  from shuffled_same_feed [OF assms, of ?J ?chk]
  have r: "readable ?J ?chk dirname (Dir listing) = readable ?J ?chk dirname (Dir listing')"
    and f: "set (feed ?J ?chk dirname (Dir listing)) = set (feed ?J ?chk dirname (Dir listing'))"
    by blast+
  note A = explore_feed(1) [of L d dirname listing] and B = explore_feed(1) [of L d dirname listing']
  show ?thesis
  proof (cases "readable ?J ?chk dirname (Dir listing)")
    case True
    with A have a: "exploreDir L d dirname listing
        = (None, feed_into L d (feed ?J ?chk dirname (Dir listing)))" by blast
    from True r B have b: "exploreDir L d dirname listing'
        = (None, feed_into L d (feed ?J ?chk dirname (Dir listing')))" by blast
    note S = feed_into_same_set [OF f, of L d]
    show ?thesis
      unfolding a b fst_conv snd_conv using S by blast
  next
    case False
    with A have a: "fst (exploreDir L d dirname listing) \<noteq> None" by blast
    from False r B have b: "fst (exploreDir L d dirname listing') \<noteq> None" by blast
    from a b show ?thesis by blast
  qed
qed

section \<open>Runs on sample trees\<close>

lemma parse_sample: "parse (literal sample_yaml) input = Inr sample_defs"
  by (simp add: parse_def literal_simps sample_yaml_def literal_Compile_words init_maps_def
      make_map_def assign_true_def sample_defs_def sample_rule_def)

lemma lines_terminated:
  "complete_lines (bytes terminated_file) = [''package x'' @ [CHR 0x0A], ''// TODO'' @ [CHR 0x0A]]"
  by (simp add: terminated_file_def complete_lines_None complete_lines_Some)

lemma lines_failing: "complete_lines (bytes failing_file) = [''// TODO'' @ [CHR 0x0A]]"
  by (simp add: failing_file_def complete_lines_None complete_lines_Some)

lemma sample_check:
  "shouldCheck (literal y) sample_defs ''legacy.go''" "shouldCheck (literal y) sample_defs ''src/new.go''"
  "\<not> shouldCheck (literal y) sample_defs ''src/notes.txt''"
  "shouldCheck (literal y) sample_defs ''a.go''" "shouldCheck (literal y) sample_defs ''b.go''"
  "shouldCheck (literal y) sample_defs ''new.go''"
  by (simp_all add: shouldCheck_def literal_simps sample_defs_def)

lemma shuffled_sample: "shuffled (Dir (Inr sample_tree)) (Dir (Inr shuffled_tree))"
proof -
  let ?notes = "Regular (Inl (PathError ''permission denied''))"
  let ?go = "Regular (Inr terminated_file)"
  have "shuffled (Dir (Inr [(''link'', Other), (''new.go'', ?go), (''notes.txt'', ?notes)]))
      (Dir (Inr [(''notes.txt'', ?notes), (''new.go'', ?go), (''link'', Other)]))"
    by (rule shuffled_Dir [where files' = "[(''link'', Other), (''new.go'', ?go), (''notes.txt'', ?notes)]"])
       (simp_all add: shuffled.intros)
  then show ?thesis
    unfolding sample_tree_def shuffled_tree_def
    by (intro shuffled_Dir [where files' = "[(''legacy.go'', ?go), (''src'',
          Dir (Inr [(''notes.txt'', ?notes), (''new.go'', ?go), (''link'', Other)]))]"])
       (simp_all add: shuffled.intros)
qed

lemma fault_samples: "fault terminated_file = EOF" "fault failing_file \<noteq> EOF"
  by (simp_all add: terminated_file_def failing_file_def)

lemma feed_sample:
  "readable path_Join (shouldCheck (literal y) sample_defs) ''.'' (Dir (Inr sample_tree))"
  "feed path_Join (shouldCheck (literal y) sample_defs) ''.'' (Dir (Inr sample_tree))
     = [(''legacy.go'', ''package x'' @ [CHR 0x0A]), (''legacy.go'', ''// TODO'' @ [CHR 0x0A]),
        (''src/new.go'', ''package x'' @ [CHR 0x0A]), (''src/new.go'', ''// TODO'' @ [CHR 0x0A])]"
  by (simp_all add: sample_tree_def path_Join_def sample_check fault_samples lines_terminated)

lemma feed_into_sample:
  "feed_into (literal y) sample_defs
     [(''legacy.go'', ''package x'' @ [CHR 0x0A]), (''legacy.go'', ''// TODO'' @ [CHR 0x0A]),
      (''src/new.go'', ''package x'' @ [CHR 0x0A]), (''src/new.go'', ''// TODO'' @ [CHR 0x0A])]
   = sample_defs\<lparr>Rules :=
       [sample_rule\<lparr>actualFilenames := [(''legacy.go'', True), (''src/new.go'', True)]\<rparr>]\<rparr>"
  by (simp add: feed_into_def matchAgainstLine_def literal_simps sample_defs_def sample_rule_def
      assign_true_def)

lemma exploreDir_readable:
  "readable (filepath_Join L) (shouldCheck L d) dirname (Dir listing) \<Longrightarrow>
   exploreDir L d dirname listing
     = (None, feed_into L d (feed (filepath_Join L) (shouldCheck L d) dirname (Dir listing)))"
  using explore_feed(1) [of L d dirname listing] by blast

lemma exploreDir_unreadable:
  "\<not> readable (filepath_Join L) (shouldCheck L d) dirname (Dir listing) \<Longrightarrow>
   fst (exploreDir L d dirname listing) \<noteq> None"
  using explore_feed(1) [of L d dirname listing] by blast

lemma explore_sample:
  "exploreDir (literal y) sample_defs ''.'' (Inr sample_tree)
     = (None, sample_defs\<lparr>Rules :=
          [sample_rule\<lparr>actualFilenames := [(''legacy.go'', True), (''src/new.go'', True)]\<rparr>]\<rparr>)"
proof -
  have "exploreDir (literal y) sample_defs ''.'' (Inr sample_tree)
      = (None, feed_into (literal y) sample_defs
          (feed (filepath_Join (literal y)) (shouldCheck (literal y) sample_defs) ''.''
             (Dir (Inr sample_tree))))"
    by (rule exploreDir_readable) (simp only: literal_simps feed_sample)
  then show ?thesis
    by (simp only: literal_simps feed_sample feed_into_sample)
qed

theorem scan_order_independent_witness:
  "shuffled (Dir (Inr sample_tree)) (Dir (Inr shuffled_tree))
   \<and> fst (exploreDir (literal sample_yaml) sample_defs ''.'' (Inr sample_tree)) = None
   \<and> fst (exploreDir (literal sample_yaml) sample_defs ''.'' (Inr shuffled_tree)) = None
   \<and> map (\<lambda>r. set (fst (Mismatches r)))
        (Rules (snd (exploreDir (literal sample_yaml) sample_defs ''.'' (Inr shuffled_tree))))
       = [{''src/new.go''}]
   \<and> map (\<lambda>r. set (snd (Mismatches r)))
        (Rules (snd (exploreDir (literal sample_yaml) sample_defs ''.'' (Inr shuffled_tree))))
       = [{}]"
proof -
  let ?scanned = "sample_rule\<lparr>actualFilenames := [(''legacy.go'', True), (''src/new.go'', True)]\<rparr>"
  have h: "shuffled (Dir (Inr sample_tree)) (Dir (Inr shuffled_tree))"
    by (rule shuffled_sample)
  have e: "exploreDir (literal sample_yaml) sample_defs ''.'' (Inr sample_tree)
      = (None, sample_defs\<lparr>Rules := [?scanned]\<rparr>)"
    by (rule explore_sample)
  have m: "set (fst (Mismatches ?scanned)) = {''src/new.go''}" "set (snd (Mismatches ?scanned)) = {}"
    by (simp_all add: Mismatches_fst Mismatches_snd range_keys_def index_def sample_rule_def)
  from scan_order_independent [OF h, of "literal sample_yaml" sample_defs "''.''"] h m
  show ?thesis
    unfolding e by simp
qed

lemma main_scan_error:
  assumes "length args = 2 \<or> length args = 3"
    and "ioutil_ReadFile w (args ! 1) = Inr config"
    and "parse L config = Inr results"
    and "fst (snd (scan L w args results)) = Some err"
  shows "main L w args = Exit 1 [] (Some err)"
proof -
  from assms(4) obtain mode results' where "scan L w args results = (mode, Some err, results')"
    by (cases "scan L w args results") auto
  with assms(1-3) show ?thesis
    by (auto simp: main_def)
qed

lemma explore_files_append:
  "explore_files L d dirname (files @ later) =
     (case explore_files L d dirname files of
        (None, d') \<Rightarrow> explore_files L d' dirname later
      | (Some err, d') \<Rightarrow> (Some err, d'))"
proof (induction files arbitrary: d)
  case Nil
  show ?case by simp
next
  case (Cons a files)
  obtain name fi where a: "a = (name, fi)" by (cases a)
  show ?case
    unfolding a by (cases fi) (auto simp: Let_def Cons.IH split: prod.splits option.splits)
qed

lemma failing_directory_stops:
  assumes "explore_files L d dirname files = (None, d1)"
    and "exploreDir L d1 (filepath_Join L dirname name) listing = (Some err, d2)"
  shows "explore_files L d dirname (files @ (name, Dir listing) # later) = (Some err, d2)"
  using assms by (simp add: explore_files_append)

lemma failing_file_stops:
  assumes "explore_files L d dirname files = (None, d1)"
    and "shouldCheck L d1 (filepath_Join L dirname name)"
    and "matchAgainstFile L d1 (filepath_Join L dirname name) opened = (Some err, d2)"
  shows "explore_files L d dirname (files @ (name, Regular opened) # later) = (Some err, d2)"
  using assms by (simp add: explore_files_append)

text \<open>
  The walk of \<open>exploreDir\<close> against the walk by itself: the same first error, and
  the state fed with the pairs before it.
\<close>

lemma walk_step:
  assumes v: "visit = (case w of (err, fed) \<Rightarrow> (err, feed_into L d fed))"
    and r: "\<And>d'. visit = (None, d') \<Longrightarrow>
              rest d' = (case ws of (err, fed) \<Rightarrow> (err, feed_into L d' fed))"
  shows "(case visit of (None, d') \<Rightarrow> rest d' | (Some err, d') \<Rightarrow> (Some err, d'))
       = (case (case w of
                  (Some err, fed) \<Rightarrow> (Some err, fed)
                | (None, fed) \<Rightarrow> (case ws of (err, fed') \<Rightarrow> (err, fed @ fed')))
          of (err, fed) \<Rightarrow> (err, feed_into L d fed))"
proof -
  obtain e1 ps where w: "w = (e1, ps)" by (cases w)
  obtain e2 qs where ws: "ws = (e2, qs)" by (cases ws)
  show ?thesis
  proof (cases e1)
    case None
    with v w have e: "visit = (None, feed_into L d ps)" by simp
    from r [OF e] show ?thesis
      by (simp add: e w ws None feed_into_append)
  next
    case (Some e)
    with v w show ?thesis by simp
  qed
qed

lemma explore_walk:
  "exploreDir L d dirname listing
     = (case walk (filepath_Join L) (shouldCheck L d) dirname (Dir listing) of
          (err, fed) \<Rightarrow> (err, feed_into L d fed))"
  "explore_files L d dirname files
     = (case walk_files (filepath_Join L) (shouldCheck L d) dirname files of
          (err, fed) \<Rightarrow> (err, feed_into L d fed))"
proof (induction L d dirname listing and L d dirname files rule: exploreDir_explore_files.induct)
  case (1 L d dirname err)
  show ?case by (simp add: feed_into_Nil)
next
  case (2 L d dirname files)
  then show ?case by simp
next
  case (3 L d dirname)
  show ?case by (simp add: feed_into_Nil)
next
  case (4 L d dirname name fi files)
  let ?J = "filepath_Join L" and ?chk = "shouldCheck L d"
  let ?x = "filepath_Join L dirname name"
  show ?case
  proof (cases fi)
    case (Dir sub)
    have v: "exploreDir L d ?x sub
        = (case walk ?J ?chk ?x (Dir sub) of (err, fed) \<Rightarrow> (err, feed_into L d fed))"
      using "4.IH"(1) [OF refl Dir] .
    have r: "\<And>d'. exploreDir L d ?x sub = (None, d') \<Longrightarrow>
        explore_files L d' dirname files
          = (case walk_files ?J ?chk dirname files of (err, fed) \<Rightarrow> (err, feed_into L d' fed))"
    proof -
      fix d'
      assume e: "exploreDir L d ?x sub = (None, d')"
      with v obtain fed where "d' = feed_into L d fed"
        by (cases "walk ?J ?chk ?x (Dir sub)") simp
      then have c: "shouldCheck L d' = ?chk"
        by (simp add: shouldCheck_feed_into)
      from "4.IH"(2) [OF refl Dir e [symmetric] refl] show "?thesis d'"
        by (simp only: c)
    qed
    from walk_step [where rest = "\<lambda>d'. explore_files L d' dirname files", OF v r] Dir
    show ?thesis by simp
  next
    case (Regular opened)
    show ?thesis
    proof (cases "?chk ?x")
      case True
      have v: "matchAgainstFile L d ?x opened
          = (case walk ?J ?chk ?x (Regular opened) of (err, fed) \<Rightarrow> (err, feed_into L d fed))"
        using True
        by (cases opened) (simp_all add: matchAgainstFile_lines feed_into_Nil, simp add: matchAgainstFile_def)
      have r: "\<And>d'. matchAgainstFile L d ?x opened = (None, d') \<Longrightarrow>
          explore_files L d' dirname files
            = (case walk_files ?J ?chk dirname files of (err, fed) \<Rightarrow> (err, feed_into L d' fed))"
      proof -
        fix d'
        assume e: "matchAgainstFile L d ?x opened = (None, d')"
        with v obtain fed where "d' = feed_into L d fed"
          by (cases "walk ?J ?chk ?x (Regular opened)") simp
        then have c: "shouldCheck L d' = ?chk"
          by (simp add: shouldCheck_feed_into)
        from "4.IH"(3) [OF refl Regular True e [symmetric] refl] show "?thesis d'"
          by (simp only: c)
      qed
      from walk_step [where rest = "\<lambda>d'. explore_files L d' dirname files", OF v r] Regular True
      show ?thesis by simp
    next
      case False
      from "4.IH"(4) [OF refl Regular False] Regular False show ?thesis
        by (simp split: prod.splits)
    qed
  next
    case Other
    from "4.IH"(5) [OF refl Other] Other show ?thesis
      by (simp split: prod.splits)
  qed
qed

lemma walk_readable:
  "(fst (walk J chk path fi) = None) = readable J chk path fi"
  "(fst (walk_files J chk dirname files) = None)
     = list_all (\<lambda>(name, fi). readable J chk (J dirname name) fi) files"
  by (induction J chk path fi and J chk dirname files rule: walk_walk_files.induct)
     (auto split: prod.splits option.splits sum.splits)

lemma exploreDir_walk:
  "exploreDir L d dirname listing
     = (fst (walk (filepath_Join L) (shouldCheck L d) dirname (Dir listing)),
        feed_into L d (snd (walk (filepath_Join L) (shouldCheck L d) dirname (Dir listing))))"
  by (simp add: explore_walk(1) [of L d dirname listing] split: prod.splits)

lemma matchAgainstFile_read_error:
  "fault reader \<noteq> EOF \<Longrightarrow>
   matchAgainstFile L d filename (Inr reader)
     = (Some (fault reader), feed_into L d (map (Pair filename) (complete_lines (bytes reader))))"
  by (simp add: matchAgainstFile_lines)

lemma main_tree_error:
  assumes "length args = 2 \<or> length args = 3"
    and "ioutil_ReadFile w (args ! 1) = Inr config"
    and "parse L config = Inr results"
    and "\<not> (length args = 3 \<and> shouldCheck L results (args ! 2))"
    and "fst (walk (filepath_Join L) (shouldCheck L results) ''.'' (Dir (cwd w))) = Some err"
  shows "main L w args = Exit 1 [] (Some err)"
proof -
  from assms(4) have "scan L w args results = (False, exploreDir L results ''.'' (cwd w))"
    by (simp add: scan_def)
  with assms(5) have "fst (snd (scan L w args results)) = Some err"
    by (simp add: exploreDir_walk [of L results "''.''" "cwd w"])
  with assms(1-3) show ?thesis
    by (rule main_scan_error)
qed

lemma main_single_file_error:
  assumes "length args = 3"
    and "ioutil_ReadFile w (args ! 1) = Inr config"
    and "parse L config = Inr results"
    and "shouldCheck L results (args ! 2)"
  shows "os_Open w (args ! 2) = Inl err \<Longrightarrow> main L w args = Exit 1 [] (Some err)"
    and "os_Open w (args ! 2) = Inr reader \<Longrightarrow> fault reader \<noteq> EOF \<Longrightarrow>
         main L w args = Exit 1 [] (Some (fault reader))"
proof -
  from assms(1) have len: "length args = 2 \<or> length args = 3" by simp
  from assms(1,4) have s: "scan L w args results
      = (True, matchAgainstFile L (adjustExpectedFilenames results (args ! 2)) (args ! 2)
                 (os_Open w (args ! 2)))"
    by (simp add: scan_def)
  {
    assume "os_Open w (args ! 2) = Inl err"
    with s have "fst (snd (scan L w args results)) = Some err"
      by (simp add: matchAgainstFile_def)
    with len assms(2,3) show "main L w args = Exit 1 [] (Some err)"
      by (rule main_scan_error)
  }
  {
    assume "os_Open w (args ! 2) = Inr reader" "fault reader \<noteq> EOF"
    with s have "fst (snd (scan L w args results)) = Some (fault reader)"
      by (simp add: matchAgainstFile_read_error)
    with len assms(2,3) show "main L w args = Exit 1 [] (Some (fault reader))"
      by (rule main_scan_error)
  }
qed

text \<open>
  C9. An error of \<open>ioutil.ReadDir\<close>, of \<open>os.Open\<close> or of reading a file is what the
  call returns, with the state reached so far. When an entry of a directory fails, be it
  a sub-directory at any depth or a file, \<open>explore_files\<close> returns that very error and
  state, whatever entries come after it: they play no part. \<open>exploreDir\<close> returns
  the first error of the walk and the state fed with the lines read before it, and a
  tree that is not readable makes it return an error. In full-tree mode an error
  anywhere in the walk, and in single-file mode an error of opening or reading the
  target, makes \<open>main\<close> exit with status 1 and that error, printing no report.
\<close>

theorem io_error_aborts_run:
  "exploreDir L d dirname (Inl err) = (Some err, d)
   \<and> matchAgainstFile L d filename (Inl err) = (Some err, d)
   \<and> (fault reader \<noteq> EOF \<longrightarrow>
        fst (matchAgainstFile L d filename (Inr reader)) = Some (fault reader))
   \<and> (fault reader \<noteq> EOF \<longrightarrow>
        matchAgainstFile L d filename (Inr reader)
          = (Some (fault reader),
             feed_into L d (map (Pair filename) (complete_lines (bytes reader)))))
   \<and> (fst (explore_files L d dirname files) = Some err \<longrightarrow>
        explore_files L d dirname (files @ later) = explore_files L d dirname files)
   \<and> (explore_files L d dirname files = (None, d1)
        \<and> exploreDir L d1 (filepath_Join L dirname name) sub = (Some err, d2) \<longrightarrow>
        explore_files L d dirname (files @ (name, Dir sub) # later) = (Some err, d2))
   \<and> (explore_files L d dirname files = (None, d1)
        \<and> shouldCheck L d1 (filepath_Join L dirname name)
        \<and> matchAgainstFile L d1 (filepath_Join L dirname name) opened = (Some err, d2) \<longrightarrow>
        explore_files L d dirname (files @ (name, Regular opened) # later) = (Some err, d2))
   \<and> exploreDir L d dirname listing
        = (fst (walk (filepath_Join L) (shouldCheck L d) dirname (Dir listing)),
           feed_into L d (snd (walk (filepath_Join L) (shouldCheck L d) dirname (Dir listing))))
   \<and> (\<not> readable (filepath_Join L) (shouldCheck L d) dirname (Dir listing) \<longrightarrow>
        fst (exploreDir L d dirname listing) \<noteq> None)
   \<and> ((length args = 2 \<or> length args = 3) \<and> ioutil_ReadFile w (args ! 1) = Inr config
        \<and> parse L config = Inr results \<and> fst (snd (scan L w args results)) = Some err \<longrightarrow>
        main L w args = Exit 1 [] (Some err))
   \<and> ((length args = 2 \<or> length args = 3) \<and> ioutil_ReadFile w (args ! 1) = Inr config
        \<and> parse L config = Inr results
        \<and> \<not> (length args = 3 \<and> shouldCheck L results (args ! 2))
        \<and> fst (walk (filepath_Join L) (shouldCheck L results) ''.'' (Dir (cwd w))) = Some err \<longrightarrow>
        main L w args = Exit 1 [] (Some err))
   \<and> ((length args = 2 \<or> length args = 3) \<and> ioutil_ReadFile w (args ! 1) = Inr config
        \<and> parse L config = Inr results
        \<and> \<not> (length args = 3 \<and> shouldCheck L results (args ! 2))
        \<and> cwd w = Inl err \<longrightarrow>
        main L w args = Exit 1 [] (Some err))
   \<and> (length args = 3 \<and> ioutil_ReadFile w (args ! 1) = Inr config
        \<and> parse L config = Inr results \<and> shouldCheck L results (args ! 2)
        \<and> os_Open w (args ! 2) = Inl err \<longrightarrow>
        main L w args = Exit 1 [] (Some err))
   \<and> (length args = 3 \<and> ioutil_ReadFile w (args ! 1) = Inr config
        \<and> parse L config = Inr results \<and> shouldCheck L results (args ! 2)
        \<and> os_Open w (args ! 2) = Inr reader \<and> fault reader \<noteq> EOF \<longrightarrow>
        main L w args = Exit 1 [] (Some (fault reader)))"
proof -
  have 1: "exploreDir L d dirname (Inl err) = (Some err, d)"
    by simp
  have 2: "matchAgainstFile L d filename (Inl err) = (Some err, d)"
    by (simp add: matchAgainstFile_def)
  have 3: "fault reader \<noteq> EOF \<longrightarrow>
      fst (matchAgainstFile L d filename (Inr reader)) = Some (fault reader)"
    by (simp add: matchAgainstFile_lines)
  have 4: "fault reader \<noteq> EOF \<longrightarrow>
      matchAgainstFile L d filename (Inr reader)
        = (Some (fault reader),
           feed_into L d (map (Pair filename) (complete_lines (bytes reader))))"
    using matchAgainstFile_read_error [of reader L d filename] by blast
  have 5: "fst (explore_files L d dirname files) = Some err \<longrightarrow>
      explore_files L d dirname (files @ later) = explore_files L d dirname files"
    by (simp add: explore_files_stops)
  have 6: "explore_files L d dirname files = (None, d1)
      \<and> exploreDir L d1 (filepath_Join L dirname name) sub = (Some err, d2) \<longrightarrow>
      explore_files L d dirname (files @ (name, Dir sub) # later) = (Some err, d2)"
    using failing_directory_stops [of L d dirname files d1 name sub err d2 later] by blast
  have 7: "explore_files L d dirname files = (None, d1)
      \<and> shouldCheck L d1 (filepath_Join L dirname name)
      \<and> matchAgainstFile L d1 (filepath_Join L dirname name) opened = (Some err, d2) \<longrightarrow>
      explore_files L d dirname (files @ (name, Regular opened) # later) = (Some err, d2)"
    using failing_file_stops [of L d dirname files d1 name opened err d2 later] by blast
  have 8: "exploreDir L d dirname listing
      = (fst (walk (filepath_Join L) (shouldCheck L d) dirname (Dir listing)),
         feed_into L d (snd (walk (filepath_Join L) (shouldCheck L d) dirname (Dir listing))))"
    by (rule exploreDir_walk)
  have 9: "\<not> readable (filepath_Join L) (shouldCheck L d) dirname (Dir listing) \<longrightarrow>
      fst (exploreDir L d dirname listing) \<noteq> None"
    using exploreDir_unreadable [of L d dirname listing] by blast
  have 10: "(length args = 2 \<or> length args = 3) \<and> ioutil_ReadFile w (args ! 1) = Inr config
      \<and> parse L config = Inr results \<and> fst (snd (scan L w args results)) = Some err \<longrightarrow>
      main L w args = Exit 1 [] (Some err)"
    using main_scan_error [of args w config L results err] by blast
  have 11: "(length args = 2 \<or> length args = 3) \<and> ioutil_ReadFile w (args ! 1) = Inr config
      \<and> parse L config = Inr results
      \<and> \<not> (length args = 3 \<and> shouldCheck L results (args ! 2))
      \<and> fst (walk (filepath_Join L) (shouldCheck L results) ''.'' (Dir (cwd w))) = Some err \<longrightarrow>
      main L w args = Exit 1 [] (Some err)"
    using main_tree_error [of args w config L results err] by blast
  have 12: "(length args = 2 \<or> length args = 3) \<and> ioutil_ReadFile w (args ! 1) = Inr config
      \<and> parse L config = Inr results
      \<and> \<not> (length args = 3 \<and> shouldCheck L results (args ! 2))
      \<and> cwd w = Inl err \<longrightarrow>
      main L w args = Exit 1 [] (Some err)"
    using main_tree_error [of args w config L results err] by simp
  have 13: "length args = 3 \<and> ioutil_ReadFile w (args ! 1) = Inr config
      \<and> parse L config = Inr results \<and> shouldCheck L results (args ! 2)
      \<and> os_Open w (args ! 2) = Inl err \<longrightarrow>
      main L w args = Exit 1 [] (Some err)"
    using main_single_file_error(1) [of args w config L results err] by blast
  have 14: "length args = 3 \<and> ioutil_ReadFile w (args ! 1) = Inr config
      \<and> parse L config = Inr results \<and> shouldCheck L results (args ! 2)
      \<and> os_Open w (args ! 2) = Inr reader \<and> fault reader \<noteq> EOF \<longrightarrow>
      main L w args = Exit 1 [] (Some (fault reader))"
    using main_single_file_error(2) [of args w config L results reader] by blast
  from 1 2 3 4 5 6 7 8 9 10 11 12 13 14 show ?thesis
    by (intro conjI)
qed

lemma explore_failing:
  "fst (explore_files (literal y) sample_defs ''.'' [(''a.go'', Regular (Inr failing_file))])
     = Some (PathError ''read error'')"
  "fst (exploreDir (literal y) sample_defs ''.'' (Inr failing_tree)) = Some (PathError ''read error'')"
  "fst (explore_files (literal y) sample_defs ''.'' failing_tree) = Some (PathError ''read error'')"
  by (simp_all add: failing_tree_def Let_def literal_simps path_Join_def sample_check
      matchAgainstFile_lines failing_file_def)

lemma scan_legacy:
  "matchAgainstFile (literal y) sample_defs ''legacy.go'' (Inr terminated_file)
     = (None, sample_defs\<lparr>Rules := [sample_rule\<lparr>actualFilenames := [(''legacy.go'', True)]\<rparr>]\<rparr>)"
  by (simp add: matchAgainstFile_lines lines_terminated fault_samples feed_into_def
      matchAgainstLine_def literal_simps sample_defs_def sample_rule_def assign_true_def)

lemma feed_failing:
  "feed_into (literal y) sample_defs (map (Pair ''a.go'') (complete_lines (bytes failing_file)))
     = sample_defs\<lparr>Rules := [sample_rule\<lparr>actualFilenames := [(''a.go'', True)]\<rparr>]\<rparr>"
  by (simp add: lines_failing feed_into_def matchAgainstLine_def literal_simps sample_defs_def
      sample_rule_def assign_true_def)

lemma walk_locked:
  "walk path_Join (shouldCheck (literal y) sample_defs) ''.'' (Dir (Inr locked_tree))
     = (Some (PathError ''permission denied''),
        [(''legacy.go'', ''package x'' @ [CHR 0x0A]), (''legacy.go'', ''// TODO'' @ [CHR 0x0A])])"
  by (simp add: locked_tree_def path_Join_def sample_check fault_samples lines_terminated)

theorem io_error_aborts_run_witness:
  "fault failing_file \<noteq> EOF
   \<and> fst (matchAgainstFile (literal sample_yaml) sample_defs ''a.go'' (Inr failing_file))
       = Some (PathError ''read error'')
   \<and> fst (explore_files (literal sample_yaml) sample_defs ''.''
             [(''a.go'', Regular (Inr failing_file))]) = Some (PathError ''read error'')
   \<and> explore_files (literal sample_yaml) sample_defs ''.'' failing_tree
       = explore_files (literal sample_yaml) sample_defs ''.'' [(''a.go'', Regular (Inr failing_file))]
   \<and> \<not> readable (filepath_Join (literal sample_yaml))
          (shouldCheck (literal sample_yaml) sample_defs) ''.'' (Dir (Inr failing_tree))
   \<and> fst (exploreDir (literal sample_yaml) sample_defs ''.'' (Inr failing_tree)) \<noteq> None
   \<and> main (literal sample_yaml) (sample_world failing_tree) [''lidder'', ''lid.yaml'']
       = Exit 1 [] (Some (PathError ''read error''))
   \<and> explore_files (literal sample_yaml) sample_defs ''.'' failing_tree
       = (Some (PathError ''read error''),
          sample_defs\<lparr>Rules := [sample_rule\<lparr>actualFilenames := [(''a.go'', True)]\<rparr>]\<rparr>)
   \<and> explore_files (literal sample_yaml) sample_defs ''.'' locked_tree
       = (Some (PathError ''permission denied''),
          sample_defs\<lparr>Rules := [sample_rule\<lparr>actualFilenames := [(''legacy.go'', True)]\<rparr>]\<rparr>)
   \<and> fst (exploreDir (literal sample_yaml) sample_defs ''.'' (Inr locked_tree))
       = Some (PathError ''permission denied'')
   \<and> main (literal sample_yaml) (sample_world locked_tree) [''lidder'', ''lid.yaml'']
       = Exit 1 [] (Some (PathError ''permission denied''))
   \<and> main (literal sample_yaml) (sample_world locked_tree) [''lidder'', ''lid.yaml'', ''a.txt'']
       = Exit 1 [] (Some (PathError ''permission denied''))
   \<and> main (literal sample_yaml) unopenable_world [''lidder'', ''lid.yaml'', ''new.go'']
       = Exit 1 [] (Some (PathError ''no such file''))
   \<and> main (literal sample_yaml) unreadable_world [''lidder'', ''lid.yaml'', ''new.go'']
       = Exit 1 [] (Some (PathError ''read error''))"
proof -
  let ?L = "literal sample_yaml" and ?args = "[''lidder'', ''lid.yaml'']"
  let ?args3 = "[''lidder'', ''lid.yaml'', ''new.go'']"
  let ?w = "sample_world failing_tree"
  let ?denied = "PathError ''permission denied''"
  let ?go = "Regular (Inr terminated_file)"
  let ?src = "Inr [(''locked'', Dir (Inl ?denied)), (''new.go'', ?go)]"
  let ?d1 = "sample_defs\<lparr>Rules := [sample_rule\<lparr>actualFilenames := [(''legacy.go'', True)]\<rparr>]\<rparr>"
  let ?da = "sample_defs\<lparr>Rules := [sample_rule\<lparr>actualFilenames := [(''a.go'', True)]\<rparr>]\<rparr>"
  have f: "fault failing_file \<noteq> EOF" "fault failing_file = PathError ''read error''"
    by (simp_all add: failing_file_def)
  have p: "explore_files ?L sample_defs ''.'' failing_tree
      = explore_files ?L sample_defs ''.''
          ([(''a.go'', Regular (Inr failing_file))] @ [(''b.go'', ?go)])"
    "explore_files ?L sample_defs ''.'' failing_tree
      = explore_files ?L sample_defs ''.''
          ([] @ (''a.go'', Regular (Inr failing_file)) # [(''b.go'', ?go)])"
    by (simp_all add: failing_tree_def)
  have u: "\<not> readable (filepath_Join ?L) (shouldCheck ?L sample_defs) ''.'' (Dir (Inr failing_tree))"
    by (simp add: failing_tree_def literal_simps path_Join_def sample_check f)
  have a: "(length ?args = 2 \<or> length ?args = 3)" "ioutil_ReadFile ?w (?args ! 1) = Inr []"
    "parse ?L [] = Inr sample_defs"
    "fst (snd (scan ?L ?w ?args sample_defs)) = Some (PathError ''read error'')"
    by (simp_all add: sample_world_def parse_sample scan_def explore_failing)
  note T = io_error_aborts_run [where L = ?L and d = sample_defs and dirname = "''.''"
      and err = "PathError ''read error''" and reader = failing_file and filename = "''a.go''"
      and files = "[(''a.go'', Regular (Inr failing_file))]"
      and later = "[(''b.go'', ?go)]"
      and listing = "Inr failing_tree" and args = ?args and w = ?w and config = "[]"
      and results = sample_defs]
  from T f(1) have "fst (matchAgainstFile ?L sample_defs ''a.go'' (Inr failing_file))
      = Some (fault failing_file)"
    by blast
  then have 1: "fst (matchAgainstFile ?L sample_defs ''a.go'' (Inr failing_file))
      = Some (PathError ''read error'')"
    by (simp only: f(2))
  from T explore_failing(1) [of sample_yaml]
  have "explore_files ?L sample_defs ''.''
        ([(''a.go'', Regular (Inr failing_file))] @ [(''b.go'', ?go)])
      = explore_files ?L sample_defs ''.'' [(''a.go'', Regular (Inr failing_file))]"
    by blast
  then have 2: "explore_files ?L sample_defs ''.'' failing_tree
      = explore_files ?L sample_defs ''.'' [(''a.go'', Regular (Inr failing_file))]"
    by (simp only: p(1))
  from T u have 3: "fst (exploreDir ?L sample_defs ''.'' (Inr failing_tree)) \<noteq> None"
    by blast
  from T a have 4: "main ?L ?w ?args = Exit 1 [] (Some (PathError ''read error''))"
    by blast
  from T f(1) have "matchAgainstFile ?L sample_defs ''a.go'' (Inr failing_file)
      = (Some (fault failing_file),
         feed_into ?L sample_defs (map (Pair ''a.go'') (complete_lines (bytes failing_file))))"
    by blast
  then have ma: "matchAgainstFile ?L sample_defs (filepath_Join ?L ''.'' ''a.go'') (Inr failing_file)
      = (Some (PathError ''read error''), ?da)"
    by (simp add: f(2) feed_failing literal_simps path_Join_def)
  have e0: "explore_files ?L sample_defs ''.'' [] = (None, sample_defs)"
    "shouldCheck ?L sample_defs (filepath_Join ?L ''.'' ''a.go'')"
    by (simp_all add: literal_simps path_Join_def sample_check)
  from io_error_aborts_run [where L = ?L and d = sample_defs and dirname = "''.''"
      and files = "[]" and ?d1.0 = sample_defs and name = "''a.go''"
      and opened = "Inr failing_file" and err = "PathError ''read error''" and ?d2.0 = ?da
      and later = "[(''b.go'', ?go)]"] e0 ma
  have "explore_files ?L sample_defs ''.'' ([] @ (''a.go'', Regular (Inr failing_file)) # [(''b.go'', ?go)])
      = (Some (PathError ''read error''), ?da)"
    by blast
  then have 5: "explore_files ?L sample_defs ''.'' failing_tree
      = (Some (PathError ''read error''), ?da)"
    by (simp only: p(2))
  have l1: "explore_files ?L sample_defs ''.'' [(''legacy.go'', ?go)] = (None, ?d1)"
    by (simp add: Let_def literal_simps path_Join_def sample_check scan_legacy)
  have l2: "exploreDir ?L ?d1 (filepath_Join ?L ''.'' ''src'') ?src = (Some ?denied, ?d1)"
    by (simp add: Let_def)
  have l3: "locked_tree = [(''legacy.go'', ?go)] @ (''src'', Dir ?src) # [(''z.go'', ?go)]"
    by (simp add: locked_tree_def)
  from io_error_aborts_run [where L = ?L and d = sample_defs and dirname = "''.''"
      and files = "[(''legacy.go'', ?go)]" and ?d1.0 = ?d1 and name = "''src''"
      and sub = ?src and err = ?denied and ?d2.0 = ?d1 and later = "[(''z.go'', ?go)]"] l1 l2
  have "explore_files ?L sample_defs ''.'' ([(''legacy.go'', ?go)] @ (''src'', Dir ?src) # [(''z.go'', ?go)])
      = (Some ?denied, ?d1)"
    by blast
  then have 6: "explore_files ?L sample_defs ''.'' locked_tree = (Some ?denied, ?d1)"
    by (simp only: l3)
  have wl: "fst (walk (filepath_Join ?L) (shouldCheck ?L sample_defs) ''.'' (Dir (Inr locked_tree)))
      = Some ?denied"
    by (simp only: literal_simps walk_locked fst_conv)
  note TL = io_error_aborts_run [where L = ?L and d = sample_defs and dirname = "''.''"
      and listing = "Inr locked_tree" and err = ?denied and w = "sample_world locked_tree"
      and config = "[]" and results = sample_defs]
  from TL [where args = ?args]
  have "exploreDir ?L sample_defs ''.'' (Inr locked_tree)
      = (fst (walk (filepath_Join ?L) (shouldCheck ?L sample_defs) ''.'' (Dir (Inr locked_tree))),
         feed_into ?L sample_defs
           (snd (walk (filepath_Join ?L) (shouldCheck ?L sample_defs) ''.'' (Dir (Inr locked_tree)))))"
    by blast
  then have 7: "fst (exploreDir ?L sample_defs ''.'' (Inr locked_tree)) = Some ?denied"
    by (simp only: wl fst_conv)
  have wc: "fst (walk (filepath_Join ?L) (shouldCheck ?L sample_defs) ''.''
      (Dir (cwd (sample_world locked_tree)))) = Some ?denied"
    by (simp only: wl sample_world_def world.simps)
  have b: "ioutil_ReadFile (sample_world locked_tree) (?args ! 1) = Inr []"
    "\<not> (length ?args = 3 \<and> shouldCheck ?L sample_defs (?args ! 2))"
    by (simp_all add: sample_world_def)
  from TL [where args = ?args] a(1,3) b wc
  have 8: "main ?L (sample_world locked_tree) ?args = Exit 1 [] (Some ?denied)"
    by blast
  let ?txt = "[''lidder'', ''lid.yaml'', ''a.txt'']"
  have c: "(length ?txt = 2 \<or> length ?txt = 3)"
    "ioutil_ReadFile (sample_world locked_tree) (?txt ! 1) = Inr []"
    "\<not> (length ?txt = 3 \<and> shouldCheck ?L sample_defs (?txt ! 2))"
    by (simp_all add: sample_world_def shouldCheck_def literal_simps sample_defs_def)
  from TL [where args = ?txt] a(3) c wc
  have 9: "main ?L (sample_world locked_tree) ?txt = Exit 1 [] (Some ?denied)"
    by blast
  have s: "length ?args3 = 3" "parse ?L [] = Inr sample_defs"
    "shouldCheck ?L sample_defs (?args3 ! 2)"
    by (simp_all add: parse_sample sample_check)
  have o: "ioutil_ReadFile unopenable_world (?args3 ! 1) = Inr []"
    "os_Open unopenable_world (?args3 ! 2) = Inl (PathError ''no such file'')"
    by (simp_all add: unopenable_world_def)
  from io_error_aborts_run [where L = ?L and args = ?args3 and w = unopenable_world
      and config = "[]" and results = sample_defs and err = "PathError ''no such file''"] s o
  have 10: "main ?L unopenable_world ?args3 = Exit 1 [] (Some (PathError ''no such file''))"
    by blast
  have r: "ioutil_ReadFile unreadable_world (?args3 ! 1) = Inr []"
    "os_Open unreadable_world (?args3 ! 2) = Inr failing_file"
    by (simp_all add: unreadable_world_def)
  from io_error_aborts_run [where L = ?L and args = ?args3 and w = unreadable_world
      and config = "[]" and results = sample_defs and reader = failing_file] s r f(1)
  have "main ?L unreadable_world ?args3 = Exit 1 [] (Some (fault failing_file))"
    by blast
  then have 11: "main ?L unreadable_world ?args3 = Exit 1 [] (Some (PathError ''read error''))"
    by (simp only: f(2))
  from f(1) 1 explore_failing(1) [of sample_yaml] 2 u 3 4 5 6 7 8 9 10 11 show ?thesis
    by (intro conjI)
qed

section \<open>Single-file mode and the invariant of the maps\<close>

lemma parse_Rules:
  assumes "parse L config = Inr results"
  shows "\<exists>rs. Rules results = map init_maps rs"
  using assms by (auto simp: parse_def split: sum.splits)

lemma parse_actual_empty:
  assumes "parse L config = Inr results" and "r \<in> set (Rules results)"
  shows "actualFilenames r = []"
  using parse_Rules [OF assms(1)] assms(2) by (auto simp: init_maps_def make_map_def)

lemma wf_map_foldl: "wf_map m \<Longrightarrow> wf_map (foldl assign_true m ks)"
  by (induction ks arbitrary: m) (simp_all add: wf_map_assign_true)

lemma parse_wf:
  assumes "parse L config = Inr results" and "r \<in> set (Rules results)"
  shows "wf_rule r"
  using parse_Rules [OF assms(1)] assms(2)
  by (auto simp: init_maps_def wf_rule_def wf_map_foldl wf_map_make_map)

lemma adjust_rule_wf: "wf_rule r \<Longrightarrow> wf_rule (adjust_rule target r)"
  by (simp add: wf_rule_def adjust_rule_expected adjust_rule_other wf_map_def)

lemma adjustExpectedFilenames_wf:
  "\<forall>r\<in>set (Rules d). wf_rule r \<Longrightarrow> \<forall>r\<in>set (Rules (adjustExpectedFilenames d target)). wf_rule r"
  by (simp add: adjustExpectedFilenames_def adjust_rule_wf)

lemma matchAgainstLine_wf:
  "\<forall>r\<in>set (Rules d). wf_rule r \<Longrightarrow> \<forall>r\<in>set (Rules (matchAgainstLine L d path line)). wf_rule r"
  by (auto simp: matchAgainstLine_def match_rules_map wf_rule_def wf_map_assign_true)

lemma feed_into_wf:
  "\<forall>r\<in>set (Rules d). wf_rule r \<Longrightarrow> \<forall>r\<in>set (Rules (feed_into L d pairs)). wf_rule r"
proof (induction pairs arbitrary: d)
  case Nil
  then show ?case by (simp add: feed_into_Nil)
next
  case (Cons a pairs)
  obtain path line where a: "a = (path, line)" by (cases a)
  from Cons.IH [OF matchAgainstLine_wf [OF Cons.prems]] show ?case
    by (simp add: a feed_into_Cons)
qed

lemma adjust_rule_narrowed: "actualFilenames r = [] \<Longrightarrow> narrowed target (adjust_rule target r)"
  by (simp add: narrowed_def adjust_rule_expected adjust_rule_other)

lemma matchAgainstLine_narrowed:
  "\<forall>r\<in>set (Rules d). narrowed target r \<Longrightarrow>
   \<forall>r\<in>set (Rules (matchAgainstLine L d target line)). narrowed target r"
  by (auto simp: matchAgainstLine_def match_rules_map narrowed_def assign_true_def)

lemma feed_into_narrowed:
  "\<forall>r\<in>set (Rules d). narrowed target r \<Longrightarrow>
   \<forall>r\<in>set (Rules (feed_into L d (map (Pair target) lines))). narrowed target r"
proof (induction lines arbitrary: d)
  case Nil
  then show ?case by (simp add: feed_into_Nil)
next
  case (Cons line lines)
  from Cons.IH [OF matchAgainstLine_narrowed [OF Cons.prems]] show ?case
    by (simp add: feed_into_Cons)
qed

lemma matchAgainstFile_narrowed:
  assumes "\<forall>r\<in>set (Rules d). narrowed target r"
  shows "\<forall>r\<in>set (Rules (snd (matchAgainstFile L d target opened))). narrowed target r"
proof (cases opened)
  case (Inl err)
  with assms show ?thesis by (simp add: matchAgainstFile_def)
next
  case (Inr reader)
  with feed_into_narrowed [OF assms] show ?thesis by (simp add: matchAgainstFile_lines)
qed

lemma narrowed_exclusive:
  assumes "narrowed target r"
  shows "(fst (Mismatches r) = [] \<or> snd (Mismatches r) = [])
       \<and> expectedFiles r \<subseteq> {target} \<and> actualFiles r \<subseteq> {target}"
  using assms
  by (auto simp: narrowed_def Mismatches_fst Mismatches_snd range_keys_def index_def
      expectedFiles_def actualFiles_def split: if_splits)

text \<open>
  C10. In single-file mode, after \<open>parse\<close>, \<open>adjustExpectedFilenames\<close> and the scan of
  the target file, at most one of the two lists of \<open>Mismatches\<close> is non-empty for every
  rule, and both the expected and the actual files of the rule are within the singleton
  of the target path.
\<close>

theorem single_file_mismatches_exclusive:
  assumes "parse L config = Inr results"
    and "scan L w args results = (True, err, results')"
    and "r \<in> set (Rules results')"
  shows "(fst (Mismatches r) = [] \<or> snd (Mismatches r) = [])
       \<and> expectedFiles r \<subseteq> {args ! 2} \<and> actualFiles r \<subseteq> {args ! 2}"
proof -
  let ?t = "args ! 2"
  let ?d = "adjustExpectedFilenames results ?t"
  from assms(2) have s: "results' = snd (matchAgainstFile L ?d ?t (os_Open w ?t))"
    by (auto simp: scan_def Let_def split: if_splits)
  have "\<forall>r\<in>set (Rules ?d). narrowed ?t r"
    using parse_actual_empty [OF assms(1)]
    by (auto simp: adjustExpectedFilenames_def adjust_rule_narrowed)
  from matchAgainstFile_narrowed [OF this] assms(3) s have "narrowed ?t r"
    by blast
  then show ?thesis
    by (rule narrowed_exclusive)
qed

lemma scan_single_sample:
  "scan (literal y) (sample_world tree) [''lidder'', ''lid.yaml'', ''new.go''] sample_defs
     = (True, None, sample_defs\<lparr>Rules :=
          [sample_rule\<lparr>expectedFilenames := [], actualFilenames := [(''new.go'', True)]\<rparr>]\<rparr>)"
proof -
  have a: "adjustExpectedFilenames sample_defs ''new.go''
      = sample_defs\<lparr>Rules := [sample_rule\<lparr>expectedFilenames := []\<rparr>]\<rparr>"
    by (simp add: adjustExpectedFilenames_def adjust_rule_def sample_defs_def sample_rule_def
        index_def make_map_def)
  have m: "matchAgainstFile (literal y) (sample_defs\<lparr>Rules := [sample_rule\<lparr>expectedFilenames := []\<rparr>]\<rparr>)
        ''new.go'' (Inr terminated_file)
      = (None, sample_defs\<lparr>Rules :=
          [sample_rule\<lparr>expectedFilenames := [], actualFilenames := [(''new.go'', True)]\<rparr>]\<rparr>)"
    by (simp add: matchAgainstFile_lines lines_terminated fault_samples feed_into_def
        matchAgainstLine_def literal_simps sample_defs_def sample_rule_def assign_true_def)
  show ?thesis
    by (simp add: scan_def sample_check sample_world_def a m)
qed

theorem single_file_mismatches_exclusive_witness:
  "parse (literal sample_yaml) [] = Inr sample_defs
   \<and> scan (literal sample_yaml) (sample_world []) [''lidder'', ''lid.yaml'', ''new.go''] sample_defs
       = (True, None, sample_defs\<lparr>Rules :=
            [sample_rule\<lparr>expectedFilenames := [], actualFilenames := [(''new.go'', True)]\<rparr>]\<rparr>)
   \<and> Mismatches (sample_rule\<lparr>expectedFilenames := [], actualFilenames := [(''new.go'', True)]\<rparr>)
       = ([''new.go''], [])
   \<and> (fst (Mismatches (sample_rule\<lparr>expectedFilenames := [],
                                      actualFilenames := [(''new.go'', True)]\<rparr>)) = []
      \<or> snd (Mismatches (sample_rule\<lparr>expectedFilenames := [],
                                       actualFilenames := [(''new.go'', True)]\<rparr>)) = [])"
proof -
  let ?r = "sample_rule\<lparr>expectedFilenames := [], actualFilenames := [(''new.go'', True)]\<rparr>"
  have p: "parse (literal sample_yaml) [] = Inr sample_defs"
    by (rule parse_sample)
  have s: "scan (literal sample_yaml) (sample_world []) [''lidder'', ''lid.yaml'', ''new.go'']
      sample_defs = (True, None, sample_defs\<lparr>Rules := [?r]\<rparr>)"
    by (rule scan_single_sample)
  have r: "?r \<in> set (Rules (sample_defs\<lparr>Rules := [?r]\<rparr>))"
    by simp
  have m: "Mismatches ?r = ([''new.go''], [])"
    by (simp add: Mismatches_def range_keys_def index_def sample_rule_def)
  from single_file_mismatches_exclusive [OF p s r] p s m show ?thesis
    by blast
qed

text \<open>
  The rules that \<open>main\<close> hands to \<open>Mismatches\<close> have well-formed maps.
\<close>

lemma rules_wf_at_report:
  assumes "parse L config = Inr results" and "scan L w args results = (mode, None, results')"
  shows "\<forall>r\<in>set (Rules results'). wf_rule r"
proof -
  have w0: "\<forall>r\<in>set (Rules results). wf_rule r"
    using parse_wf [OF assms(1)] by blast
  show ?thesis
  proof (cases mode)
    case True
    let ?t = "args ! 2"
    let ?d = "adjustExpectedFilenames results ?t"
    from assms(2) True have s: "matchAgainstFile L ?d ?t (os_Open w ?t) = (None, results')"
      by (auto simp: scan_def Let_def split: if_splits)
    note w1 = adjustExpectedFilenames_wf [OF w0, of ?t]
    show ?thesis
    proof (cases "os_Open w ?t")
      case (Inl e)
      with s show ?thesis by (simp add: matchAgainstFile_def)
    next
      case (Inr reader)
      with s feed_into_wf [OF w1] show ?thesis
        by (auto simp: matchAgainstFile_lines split: if_splits)
    qed
  next
    case False
    with assms(2) have s: "exploreDir L results ''.'' (cwd w) = (None, results')"
      by (auto simp: scan_def Let_def split: if_splits)
    have "readable (filepath_Join L) (shouldCheck L results) ''.'' (Dir (cwd w))"
      using exploreDir_unreadable [of L results "''.''" "cwd w"] s by auto
    from exploreDir_readable [OF this] s feed_into_wf [OF w0] show ?thesis
      by auto
  qed
qed

end
